theory Spec2Isabelle
  imports Main "HOL-Library.Product_Lexorder" "HOL-Library.Multiset"
begin

section \<open>JavaScript values\<close>

text \<open>
  The grid controller of \<^verbatim>\<open>opal.js\<close> works on JSON payloads. A value is one of the
  JSON shapes or \<^verbatim>\<open>undefined\<close>; numbers are the integers (identifiers and indices are
  the only numbers the controller computes with). An object is its list of own properties
  in insertion order.
\<close>

datatype jv = Undefined | Null | Num int | Str string | Obj "(string \<times> jv) list" | Arr "jv list"

text \<open>
  What a handler can throw: the two exceptions of the language that occur, and a string
  thrown by a \<^verbatim>\<open>throw\<close> statement. \<open>NotANumber\<close> is not a JavaScript exception: it marks the
  point where the source would go on computing with the \<^verbatim>\<open>length\<close> of a value whose
  \<^verbatim>\<open>length\<close> is no number (\<^verbatim>\<open>NaN\<close> in the arithmetic that follows). Integers have no
  such value, so the model stops there. No cell of a schema column is such a value in the
  rows the controller builds.
\<close>

datatype error = TypeError | ReferenceError string | Thrown string | NotANumber

text \<open>Reading \<^verbatim>\<open>o[k]\<close> on the property list of an object: a missing key reads as undefined.\<close>

definition get_prop :: "(string \<times> jv) list \<Rightarrow> string \<Rightarrow> jv" where
  "get_prop ps k = (case map_of ps k of None \<Rightarrow> Undefined | Some v \<Rightarrow> v)"

text \<open>Writing \<^verbatim>\<open>o[k] = v\<close>: an existing key keeps its place, a new one goes last.\<close>

fun set_prop :: "string \<Rightarrow> jv \<Rightarrow> (string \<times> jv) list \<Rightarrow> (string \<times> jv) list" where
  "set_prop k v [] = [(k, v)]"
| "set_prop k v (p # ps) = (if fst p = k then (k, v) # ps else p # set_prop k v ps)"

text \<open>Reading \<^verbatim>\<open>a[i]\<close> on an array with a number \<open>i\<close>: out of range reads as undefined.\<close>

definition at :: "'a list \<Rightarrow> int \<Rightarrow> 'a option" where
  "at xs i = (if 0 \<le> i \<and> i < int (length xs) then Some (xs ! nat i) else None)"

text \<open>Number to string, for integers: decimal digits, with a sign when negative.\<close>

fun digit :: "nat \<Rightarrow> char" where
  "digit n = (''0123456789'' ! (n mod 10))"

function show_nat :: "nat \<Rightarrow> string" where
  "show_nat n = (if n < 10 then [digit n] else show_nat (n div 10) @ [digit n])"
  by pat_completeness auto
termination
  by (relation "measure id") auto

declare show_nat.simps [simp del]

definition show_int :: "int \<Rightarrow> string" where
  "show_int i = (if i < 0 then CHR ''-'' # show_nat (nat (- i)) else show_nat (nat i))"

text \<open>
  \<^verbatim>\<open>clone\<close> (lines 3-9) is jQuery's deep \<^verbatim>\<open>$.extend(true, {}, obj)\<close> for whatever has
  \<^verbatim>\<open>typeof obj == 'object'\<close> and the value itself otherwise. The deep copy of a nested
  value copies objects and arrays and leaves out properties whose value is undefined; the
  target is always a fresh object, so \<^verbatim>\<open>null\<close> gives the empty object and an array gives
  an object keyed by its indices.
\<close>

primrec deep :: "jv \<Rightarrow> jv" where
  "deep (Obj ps) = Obj (filter (\<lambda>p. snd p \<noteq> Undefined) (map (map_prod id deep) ps))"
| "deep (Arr xs) = Arr (map deep xs)"
| "deep Undefined = Undefined"
| "deep Null = Null"
| "deep (Num n) = Num n"
| "deep (Str s) = Str s"

fun clone :: "jv \<Rightarrow> jv" where
  "clone (Obj ps) = deep (Obj ps)"
| "clone Null = Obj []"
| "clone (Arr xs) =
     deep (Obj (map (\<lambda>i. (show_nat i, xs ! i)) [0 ..< length xs]))"
| "clone v = v"

text \<open>Reading \<^verbatim>\<open>v[i]\<close> with a number \<open>i\<close> on any value.\<close>

fun index_of :: "jv \<Rightarrow> int \<Rightarrow> error + jv" where
  "index_of (Arr xs) i = Inr (case at xs i of None \<Rightarrow> Undefined | Some x \<Rightarrow> x)"
| "index_of (Str s) i = Inr (case at s i of None \<Rightarrow> Undefined | Some c \<Rightarrow> Str [c])"
| "index_of (Obj ps) i = Inr (get_prop ps (show_int i))"
| "index_of (Num n) i = Inr Undefined"
| "index_of Undefined i = Inl TypeError"
| "index_of Null i = Inl TypeError"

section \<open>The controller's state\<close>

record column =
  name :: string
  single :: bool

text \<open>
  A patient row. \<open>rid\<close> is the property \<^verbatim>\<open>id\<close>, an integer as the server assigns it, so
  that \<^verbatim>\<open>==\<close> on two ids is equality; \<open>props\<close> are the other properties, keyed by
  column name (a schema column named \<^verbatim>\<open>id\<close> is not representable). \<open>oid\<close> is the
  identity of the JavaScript object: \<^verbatim>\<open>orderBy\<close> returns a new array of the same row
  objects, and a callback that captured a row's item array still writes to that row
  wherever it has moved.
\<close>

record row =
  oid :: nat
  rid :: int
  props :: "(string \<times> jv) list"

datatype istate = Normal | Adding | Editing | Deleting

datatype http_method = GET | POST | PUT | DELETE

text \<open>
  The success callbacks the controller registers, with what each closure captured:
  for \<^verbatim>\<open>saveEdit\<close> the item array (the row object and the column name) and the patient id.
\<close>

datatype callback = OnSchema | OnPatients | OnSaveAdd | OnSaveEdit nat string int

record request =
  verb :: http_method
  url :: string
  body :: jv
  success :: "callback option"

text \<open>
  The variables of the controller: \<open>istate\<close> is its local \<^verbatim>\<open>state\<close>, the rest are
  fields of \<^verbatim>\<open>$scope\<close>. \<open>modals\<close> and \<open>requests\<close> record what the handlers do to the
  page and to the server: the dialogs shown, and the calls issued so far. The hover
  indices \<^verbatim>\<open>mouseRix\<close> and \<^verbatim>\<open>mouseCix\<close> are read by no handler and are left out.
\<close>

record scope =
  istate :: istate
  rows :: "row list"
  columns :: "column list option"
  rix :: int
  cix :: int
  iix :: int
  editing :: jv
  modals :: "string list"
  requests :: "request list"
  next_oid :: nat

text \<open>The controller as constructed (lines 30-39): no schema, no rows, cursor at the origin.\<close>

definition init :: scope where
  "init = \<lparr> istate = Normal, rows = [], columns = None, rix = 0, cix = 0, iix = 0,
            editing = Undefined, modals = [], requests = [\<lparr> verb = GET, url = ''schema/'',
            body = Undefined, success = Some OnSchema \<rparr>], next_oid = 0 \<rparr>"

text \<open>A handler either returns the new scope or throws, leaving the scope as mutated so far.\<close>

type_synonym outcome = "(error \<times> scope) + scope"

definition final :: "outcome \<Rightarrow> scope" where
  "final r = (case r of Inl (e, s) \<Rightarrow> s | Inr s \<Rightarrow> s)"

definition cursor :: "scope \<Rightarrow> int \<times> int \<times> int" where
  "cursor s = (rix s, cix s, iix s)"

section \<open>Accessors\<close>

text \<open>\<^verbatim>\<open>$scope.columns[cix]\<close>: throws when the schema has not arrived, else a column or undefined.\<close>

definition column_at :: "scope \<Rightarrow> int \<Rightarrow> error + column option" where
  "column_at s c = (case columns s of None \<Rightarrow> Inl TypeError | Some cols \<Rightarrow> Inr (at cols c))"

text \<open>\<^verbatim>\<open>v.length\<close>.\<close>

fun length_of :: "jv \<Rightarrow> error + int" where
  "length_of (Arr xs) = Inr (int (length xs))"
| "length_of (Str s) = Inr (int (length s))"
| "length_of Undefined = Inl TypeError"
| "length_of Null = Inl TypeError"
| "length_of (Num n) = Inl NotANumber"
| "length_of (Obj ps) = (case get_prop ps ''length'' of Num n \<Rightarrow> Inr n | _ \<Rightarrow> Inl NotANumber)"

text \<open>\<^verbatim>\<open>$scope.rows[rix][column.name]\<close>, shared by getNumItems and getItem.\<close>

definition cell :: "scope \<Rightarrow> int \<Rightarrow> int \<Rightarrow> error + jv" where
  "cell s r c =
     (case column_at s c of Inl e \<Rightarrow> Inl e
      | Inr None \<Rightarrow> Inl TypeError
      | Inr (Some col) \<Rightarrow>
          (case at (rows s) r of None \<Rightarrow> Inl TypeError
           | Some rw \<Rightarrow> Inr (get_prop (props rw) (name col))))"

definition getNumItems :: "scope \<Rightarrow> int \<Rightarrow> int \<Rightarrow> error + int" where
  "getNumItems s r c = (case cell s r c of Inl e \<Rightarrow> Inl e | Inr v \<Rightarrow> length_of v)"

definition isSingleColumn :: "scope \<Rightarrow> int \<Rightarrow> error + bool" where
  "isSingleColumn s c =
     (case column_at s c of Inl e \<Rightarrow> Inl e
      | Inr None \<Rightarrow> Inl TypeError
      | Inr (Some col) \<Rightarrow> Inr (single col))"

definition getColumnName :: "scope \<Rightarrow> int \<Rightarrow> error + string" where
  "getColumnName s c =
     (case column_at s c of Inl e \<Rightarrow> Inl e
      | Inr None \<Rightarrow> Inl TypeError
      | Inr (Some col) \<Rightarrow> Inr (name col))"

definition getCurrentColumnName :: "scope \<Rightarrow> error + string" where
  "getCurrentColumnName s = getColumnName s (cix s)"

section \<open>Keyboard navigation\<close>

text \<open>
  goLeft, goRight, goUp and goDown (lines 346-380). goUp has stepped to the previous row
  when it reads that row's item count.
\<close>

definition goLeft :: "scope \<Rightarrow> outcome" where
  "goLeft s = (if cix s > 0 then Inr (s\<lparr>cix := cix s - 1, iix := 0\<rparr>) else Inr s)"

definition goRight :: "scope \<Rightarrow> outcome" where
  "goRight s =
     (case columns s of None \<Rightarrow> Inl (TypeError, s)
      | Some cols \<Rightarrow>
          if cix s < int (length cols) - 1 then Inr (s\<lparr>cix := cix s + 1, iix := 0\<rparr>)
          else Inr s)"

definition goUp :: "scope \<Rightarrow> outcome" where
  "goUp s =
     (if iix s > 0 then Inr (s\<lparr>iix := iix s - 1\<rparr>)
      else if rix s > 0 then
        (let s1 = s\<lparr>rix := rix s - 1\<rparr> in
         case getNumItems s1 (rix s1) (cix s1) of
           Inl e \<Rightarrow> Inl (e, s1)
         | Inr n \<Rightarrow> Inr (s1\<lparr>iix := n - 1\<rparr>))
      else Inr s)"

definition goDown :: "scope \<Rightarrow> outcome" where
  "goDown s =
     (case getNumItems s (rix s) (cix s) of
        Inl e \<Rightarrow> Inl (e, s)
      | Inr n \<Rightarrow>
          if iix s < n - 1 then Inr (s\<lparr>iix := iix s + 1\<rparr>)
          else if rix s < int (length (rows s)) - 1 then Inr (s\<lparr>rix := rix s + 1, iix := 0\<rparr>)
          else Inr s)"

section \<open>Modals and interaction states\<close>

text \<open>
  \<open>modals\<close> lists the ids of the dialogs that are shown. \<^verbatim>\<open>.modal()\<close> shows one,
  \<^verbatim>\<open>.modal('hide')\<close> hides it; focus and blur are not part of the state.
\<close>

definition show_modal :: "string \<Rightarrow> scope \<Rightarrow> scope" where
  "show_modal m s = (if m \<in> set (modals s) then s else s\<lparr>modals := modals s @ [m]\<rparr>)"

definition clearModal :: "string \<Rightarrow> scope \<Rightarrow> scope" where
  "clearModal columnName s = s\<lparr>modals := removeAll (columnName @ ''-modal'') (modals s)\<rparr>"

definition getItem :: "scope \<Rightarrow> int \<Rightarrow> int \<Rightarrow> int \<Rightarrow> error + jv" where
  "getItem s r c i = (case cell s r c of Inl e \<Rightarrow> Inl e | Inr v \<Rightarrow> index_of v i)"

definition getCurrentItem :: "scope \<Rightarrow> error + jv" where
  "getCurrentItem s = getItem s (rix s) (cix s) (iix s)"

definition startEdit :: "scope \<Rightarrow> outcome" where
  "startEdit s =
     (let s1 = s\<lparr>istate := Editing\<rparr> in
      case getCurrentItem s1 of
        Inl e \<Rightarrow> Inl (e, s1)
      | Inr item \<Rightarrow>
          (let s2 = s1\<lparr>editing := clone item\<rparr> in
           case getCurrentColumnName s2 of
             Inl e \<Rightarrow> Inl (e, s2)
           | Inr cn \<Rightarrow> Inr (show_modal (cn @ ''-modal'') s2)))"

definition startDelete :: "scope \<Rightarrow> outcome" where
  "startDelete s =
     (case isSingleColumn s (cix s) of
        Inl e \<Rightarrow> Inl (e, s)
      | Inr True \<Rightarrow> Inr s
      | Inr False \<Rightarrow>
          (case getNumItems s (rix s) (cix s) of
             Inl e \<Rightarrow> Inl (e, s)
           | Inr n \<Rightarrow>
               if n = iix s + 1 then Inr s
               else Inr (show_modal ''delete-confirmation'' (s\<lparr>istate := Deleting\<rparr>))))"

definition startAdd :: "scope \<Rightarrow> outcome" where
  "startAdd s =
     Inr (show_modal ''add-new-modal''
       (s\<lparr>istate := Adding,
          editing := Obj [(''location'', Obj []), (''demographics'', Obj [])]\<rparr>))"

definition cancelAdd :: "scope \<Rightarrow> outcome" where
  "cancelAdd s = Inr (clearModal ''add-new'' (s\<lparr>istate := Normal\<rparr>))"

definition cancelEdit :: "scope \<Rightarrow> outcome" where
  "cancelEdit s =
     (let s1 = s\<lparr>istate := Normal\<rparr> in
      case getCurrentColumnName s1 of
        Inl e \<Rightarrow> Inl (e, s1)
      | Inr cn \<Rightarrow> Inr (clearModal cn s1))"

definition cancelDelete :: "scope \<Rightarrow> outcome" where
  "cancelDelete s = Inr (s\<lparr>istate := Normal\<rparr>)"

section \<open>Key dispatch\<close>

text \<open>
  The handlers of lines 279-344 on the event's \<^verbatim>\<open>keyCode\<close>. Backspace (8) calls
  \<^verbatim>\<open>preventDefault\<close>, which does not touch the scope, and falls through to delete (46).
\<close>

definition handleKeypressAdd :: "int \<Rightarrow> scope \<Rightarrow> outcome" where
  "handleKeypressAdd keyCode s = (if keyCode = 27 then cancelAdd s else Inr s)"

definition handleKeypressEdit :: "int \<Rightarrow> scope \<Rightarrow> outcome" where
  "handleKeypressEdit keyCode s = (if keyCode = 27 then cancelEdit s else Inr s)"

definition handleKeypressDelete :: "int \<Rightarrow> scope \<Rightarrow> outcome" where
  "handleKeypressDelete keyCode s = (if keyCode = 27 then cancelDelete s else Inr s)"

definition handleKeypressNormal :: "int \<Rightarrow> scope \<Rightarrow> outcome" where
  "handleKeypressNormal keyCode s =
     (if keyCode = 37 \<or> keyCode = 72 then goLeft s
      else if keyCode = 39 \<or> keyCode = 76 then goRight s
      else if keyCode = 38 \<or> keyCode = 75 then goUp s
      else if keyCode = 40 \<or> keyCode = 74 then goDown s
      else if keyCode = 13 then startEdit s
      else if keyCode = 8 \<or> keyCode = 46 then startDelete s
      else Inr s)"

definition keypress :: "int \<Rightarrow> scope \<Rightarrow> outcome" where
  "keypress keyCode s =
     (case istate s of
        Adding \<Rightarrow> handleKeypressAdd keyCode s
      | Editing \<Rightarrow> handleKeypressEdit keyCode s
      | Deleting \<Rightarrow> handleKeypressDelete keyCode s
      | Normal \<Rightarrow> handleKeypressNormal keyCode s)"

text \<open>
  A sequence of key events. An exception ends the handler that threw, not the page: the
  next event is handled in the scope the failed handler left behind.
\<close>

fun keypresses :: "int list \<Rightarrow> scope \<Rightarrow> scope" where
  "keypresses [] s = s"
| "keypresses (k # ks) s = keypresses ks (final (keypress k s))"

section \<open>Row order\<close>

text \<open>
  The Angular expression \<^verbatim>\<open>location[0].f\<close> on a row; Angular expressions read undefined
  through a missing step instead of throwing.
\<close>

definition location0 :: "row \<Rightarrow> jv" where
  "location0 r =
     (case get_prop (props r) ''location'' of
        Arr xs \<Rightarrow> (case xs of [] \<Rightarrow> Undefined | x # _ \<Rightarrow> x)
      | Obj ps \<Rightarrow> get_prop ps ''0''
      | Str s \<Rightarrow> (case s of [] \<Rightarrow> Undefined | c # _ \<Rightarrow> Str [c])
      | _ \<Rightarrow> Undefined)"

definition field :: "jv \<Rightarrow> string \<Rightarrow> jv" where
  "field v k = (case v of Obj ps \<Rightarrow> get_prop ps k | _ \<Rightarrow> Undefined)"

text \<open>
  The key of \<^verbatim>\<open>ORDERING\<close> (line 1). \<open>rank\<close> is the order in which field values
  compare: any linear order, given as a map into an ordered type. The four components
  compare lexicographically.
\<close>

definition ordering_key :: "(jv \<Rightarrow> 'k::linorder) \<Rightarrow> row \<Rightarrow> 'k \<times> 'k \<times> 'k \<times> 'k" where
  "ordering_key rank r =
     (rank (field (location0 r) ''category''), rank (field (location0 r) ''hospital''),
      rank (field (location0 r) ''ward''), rank (field (location0 r) ''bed''))"

text \<open>
  Modelled from the spec: Angular's \<^verbatim>\<open>orderBy\<close> filter, which \<^verbatim>\<open>$filter('orderBy')(rows, ORDERING)\<close>
  calls, is library code and not part of the sources. The specification gives its result:
  the rows sorted by the fixed key (category, hospital, ward, bed), ascending and stable.
\<close>

definition orderBy :: "(jv \<Rightarrow> 'k::linorder) \<Rightarrow> row list \<Rightarrow> row list" where
  "orderBy rank rs = sort_key (ordering_key rank) rs"

section \<open>Loading\<close>

text \<open>A patient as the server sends it: its \<^verbatim>\<open>id\<close> and its other properties.\<close>

type_synonym patient = "int \<times> (string \<times> jv) list"

definition placeholder :: "int \<Rightarrow> jv" where
  "placeholder patientId = Obj [(''patient'', Num patientId)]"

text \<open>One round of the inner loop of the load handler (lines 53-58) on the properties of a row.\<close>

definition normalize_column :: "int \<Rightarrow> column \<Rightarrow> (string \<times> jv) list \<Rightarrow> error + (string \<times> jv) list" where
  "normalize_column patientId col ps =
     (if single col then Inr (set_prop (name col) (Arr [get_prop ps (name col)]) ps)
      else (case get_prop ps (name col) of
              Arr xs \<Rightarrow> Inr (set_prop (name col) (Arr (xs @ [placeholder patientId])) ps)
            | _ \<Rightarrow> Inl TypeError))"

fun normalize_columns :: "int \<Rightarrow> column list \<Rightarrow> (string \<times> jv) list \<Rightarrow> error + (string \<times> jv) list" where
  "normalize_columns patientId [] ps = Inr ps"
| "normalize_columns patientId (col # cols) ps =
     (case normalize_column patientId col ps of
        Inl e \<Rightarrow> Inl e
      | Inr ps' \<Rightarrow> normalize_columns patientId cols ps')"

text \<open>The outer loop (line 51); \<open>n\<close> numbers the row objects.\<close>

fun normalize_rows :: "column list \<Rightarrow> nat \<Rightarrow> patient list \<Rightarrow> error + row list" where
  "normalize_rows cols n [] = Inr []"
| "normalize_rows cols n (p # ps) =
     (case normalize_columns (fst p) cols (snd p) of
        Inl e \<Rightarrow> Inl e
      | Inr ps' \<Rightarrow>
          (case normalize_rows cols (Suc n) ps of
             Inl e \<Rightarrow> Inl e
           | Inr rs \<Rightarrow> Inr (\<lparr> oid = n, rid = fst p, props = ps' \<rparr> # rs)))"

text \<open>
  The success handler of \<^verbatim>\<open>GET patient/\<close> (lines 50-63). The loop condition reads
  \<^verbatim>\<open>$scope.columns.length\<close> once there is a row. The handler works on its argument and
  assigns \<^verbatim>\<open>$scope.rows\<close> last, so an exception leaves the scope as it was.
\<close>

definition patients_success :: "(jv \<Rightarrow> 'k::linorder) \<Rightarrow> patient list \<Rightarrow> scope \<Rightarrow> outcome" where
  "patients_success rank fetched s =
     (if fetched = [] then Inr (s\<lparr>rows := orderBy rank []\<rparr>)
      else case columns s of
        None \<Rightarrow> Inl (TypeError, s)
      | Some cols \<Rightarrow>
          (case normalize_rows cols (next_oid s) fetched of
             Inl e \<Rightarrow> Inl (e, s)
           | Inr rs \<Rightarrow>
               Inr (s\<lparr>rows := orderBy rank rs, next_oid := next_oid s + length fetched\<rparr>)))"

text \<open>
  The success handler of \<^verbatim>\<open>GET schema/\<close> (lines 42-83), as far as the grid goes: it
  stores the columns and requests the patients. The option lists it also unpacks are lookup
  tables for the forms and take no part in rows, cursor or interaction state.
\<close>

definition schema_success :: "column list \<Rightarrow> scope \<Rightarrow> outcome" where
  "schema_success cols s =
     Inr (s\<lparr>columns := Some cols,
            requests := requests s @ [\<lparr> verb = GET, url = ''patient/'', body = Undefined,
                                        success = Some OnPatients \<rparr>]\<rparr>)"

section \<open>Row lookup\<close>

text \<open>
  getRowIxFromPatientId (lines 85-92). When no row matches, the \<^verbatim>\<open>throw\<close> statement first
  evaluates its operand \<^verbatim>\<open>'Could not find row for patient ' + patient.id\<close>; the function's
  parameter is \<^verbatim>\<open>patientId\<close> and no variable \<^verbatim>\<open>patient\<close> is in scope, so the evaluation
  ends in a ReferenceError for that name and the string is never built.
\<close>

fun find_row :: "row list \<Rightarrow> int \<Rightarrow> int \<Rightarrow> int option" where
  "find_row [] patientId ix = None"
| "find_row (r # rs) patientId ix =
     (if rid r = patientId then Some ix else find_row rs patientId (ix + 1))"

definition getRowIxFromPatientId :: "scope \<Rightarrow> int \<Rightarrow> error + int" where
  "getRowIxFromPatientId s patientId =
     (case find_row (rows s) patientId 0 of
        Some ix \<Rightarrow> Inr ix
      | None \<Rightarrow> Inl (ReferenceError ''patient''))"

definition selectItem :: "int \<Rightarrow> int \<Rightarrow> int \<Rightarrow> scope \<Rightarrow> scope" where
  "selectItem r c i s = s\<lparr>rix := r, cix := c, iix := i\<rparr>"

section \<open>Saving\<close>

text \<open>String concatenation converts its operand: \<^verbatim>\<open>'' + v\<close>.\<close>

primrec to_string :: "jv \<Rightarrow> string" where
  "to_string Undefined = ''undefined''"
| "to_string Null = ''null''"
| "to_string (Num n) = show_int n"
| "to_string (Str s) = s"
| "to_string (Obj ps) = ''[object Object]''"
| "to_string (Arr xs) =
     concat (map2 (\<lambda>i s. if i = 0 then s else CHR '','' # s) [0 ..< length xs]
       (map2 (\<lambda>x s. if x = Undefined \<or> x = Null then [] else s) xs (map to_string xs)))"

text \<open>\<^verbatim>\<open>v.id\<close> on any value.\<close>

definition id_of :: "jv \<Rightarrow> error + jv" where
  "id_of v = (case v of Undefined \<Rightarrow> Inl TypeError | Null \<Rightarrow> Inl TypeError
              | Obj ps \<Rightarrow> Inr (get_prop ps ''id'') | _ \<Rightarrow> Inr Undefined)"

text \<open>
  \<^verbatim>\<open>items[i] = v\<close>. On an array an index past the end extends it, the gap reading as
  undefined; a negative index makes a property and leaves the elements alone. On a string
  or a number the assignment does nothing.
\<close>

definition assign_index :: "jv \<Rightarrow> int \<Rightarrow> jv \<Rightarrow> error + jv" where
  "assign_index items i v =
     (case items of
        Arr xs \<Rightarrow>
          Inr (if i < 0 then Arr xs
               else if i < int (length xs) then Arr (xs[nat i := v])
               else Arr (xs @ replicate (nat i - length xs) Undefined @ [v]))
      | Obj ps \<Rightarrow> Inr (Obj (set_prop (show_int i) v ps))
      | Undefined \<Rightarrow> Inl TypeError
      | Null \<Rightarrow> Inl TypeError
      | _ \<Rightarrow> Inr items)"

text \<open>Writing a column property of the row at an index of \<^verbatim>\<open>$scope.rows\<close>.\<close>

definition set_cell :: "nat \<Rightarrow> string \<Rightarrow> jv \<Rightarrow> row list \<Rightarrow> row list" where
  "set_cell r cn v rs = rs[r := (rs ! r)\<lparr>props := set_prop cn v (props (rs ! r))\<rparr>]"

definition send :: "http_method \<Rightarrow> string \<Rightarrow> jv \<Rightarrow> callback option \<Rightarrow> scope \<Rightarrow> scope" where
  "send m u b cb s =
     s\<lparr>requests := requests s @ [\<lparr> verb = m, url = u, body = b, success = cb \<rparr>]\<rparr>"

text \<open>saveAdd (lines 177-192) up to the request, and its success handler.\<close>

definition saveAdd :: "scope \<Rightarrow> outcome" where
  "saveAdd s =
     (let s1 = clearModal ''add-new'' (s\<lparr>istate := Normal\<rparr>)
      in Inr (send POST ''patient/'' (editing s1) (Some OnSaveAdd) s1))"

definition seed_column :: "int \<Rightarrow> column \<Rightarrow> (string \<times> jv) list \<Rightarrow> (string \<times> jv) list" where
  "seed_column patientId col ps =
     (if single col then set_prop (name col) (Arr [get_prop ps (name col)]) ps
      else set_prop (name col) (Arr [placeholder patientId]) ps)"

definition saveAdd_success :: "(jv \<Rightarrow> 'k::linorder) \<Rightarrow> patient \<Rightarrow> scope \<Rightarrow> outcome" where
  "saveAdd_success rank p s =
     (case columns s of
        None \<Rightarrow> Inl (TypeError, s)
      | Some cols \<Rightarrow>
          (let r = \<lparr> oid = next_oid s, rid = fst p,
                     props = foldl (\<lambda>ps col. seed_column (fst p) col ps) (snd p) cols \<rparr>;
               s1 = s\<lparr>rows := rows s @ [r], next_oid := Suc (next_oid s)\<rparr>;
               s2 = s1\<lparr>rows := orderBy rank (rows s1)\<rparr>
           in case getRowIxFromPatientId s2 (fst p) of
                Inl e \<Rightarrow> Inl (e, s2)
              | Inr ix \<Rightarrow> Inr (selectItem ix 0 0 s2)))"

text \<open>
  saveEdit (lines 194-223). \<open>items\<close> is the array object of the current cell; the
  assignment \<^verbatim>\<open>items[$scope.iix] = clone($scope.editing)\<close> changes it in place, which
  here is a write to that cell of the row. The two branches of the test on
  \<^verbatim>\<open>isSingleColumn\<close> (line 205) are \<open>saveEdit_single\<close> and \<open>saveEdit_multi\<close>, each
  given the variables of saveEdit that it reads.
\<close>

definition saveEdit_single ::
  "(jv \<Rightarrow> 'k::linorder) \<Rightarrow> string \<Rightarrow> int \<Rightarrow> string \<Rightarrow> scope \<Rightarrow> outcome" where
  "saveEdit_single rank columnName patientId u s =
     (let s1 = send PUT u (editing s) None s
      in if columnName = ''location'' then
           (let s2 = s1\<lparr>rows := orderBy rank (rows s1)\<rparr>
            in case getRowIxFromPatientId s2 patientId of
                 Inl e \<Rightarrow> Inl (e, s2)
               | Inr ix \<Rightarrow> Inr (selectItem ix (cix s2) 0 s2))
         else Inr s1)"

definition saveEdit_multi :: "nat \<Rightarrow> string \<Rightarrow> int \<Rightarrow> string \<Rightarrow> scope \<Rightarrow> outcome" where
  "saveEdit_multi obj columnName patientId u s =
     (case id_of (editing s) of
        Inl e \<Rightarrow> Inl (e, s)
      | Inr Undefined \<Rightarrow>
          Inr (send POST u (editing s) (Some (OnSaveEdit obj columnName patientId)) s)
      | Inr i \<Rightarrow>
          Inr (send PUT (u @ to_string i @ ''/'') (editing s) None s))"

definition saveEdit :: "(jv \<Rightarrow> 'k::linorder) \<Rightarrow> scope \<Rightarrow> outcome" where
  "saveEdit rank s =
     (case getCurrentColumnName s of
        Inl e \<Rightarrow> Inl (e, s)
      | Inr columnName \<Rightarrow>
     (case at (rows s) (rix s) of
        None \<Rightarrow> Inl (TypeError, s)
      | Some rw \<Rightarrow>
     (let patientId = rid rw;
          u = ''patient/'' @ show_int patientId @ ''/'' @ columnName @ ''/'';
          items = get_prop (props rw) columnName;
          s1 = clearModal columnName (s\<lparr>istate := Normal\<rparr>)
      in case assign_index items (iix s1) (clone (editing s1)) of
           Inl e \<Rightarrow> Inl (e, s1)
         | Inr items' \<Rightarrow>
     (let s2 = s1\<lparr>rows := set_cell (nat (rix s1)) columnName items' (rows s1)\<rparr>
      in case isSingleColumn s2 (cix s2) of
           Inl e \<Rightarrow> Inl (e, s2)
         | Inr True \<Rightarrow> saveEdit_single rank columnName patientId u s2
         | Inr False \<Rightarrow> saveEdit_multi (oid rw) columnName patientId u s2))))"

text \<open>
  The success handler of the create call (lines 214-217), run with the server's item. It
  reads \<^verbatim>\<open>$scope.iix\<close> when it runs; \<open>items\<close> and \<open>patientId\<close> are the ones saveEdit
  captured: \<open>items\<close> is the array of column \<open>columnName\<close> of the row object \<open>obj\<close>,
  found here by its identity (rows are never dropped; were the row gone, the writes would
  reach nothing the scope holds). \<^verbatim>\<open>x.id = v\<close> sets the property on an object, throws on
  undefined and null, and changes nothing that this model holds on other values.
  Only an array has \<^verbatim>\<open>push\<close>.
\<close>

definition assign_id :: "jv \<Rightarrow> jv \<Rightarrow> error + jv" where
  "assign_id x v =
     (case x of Obj ps \<Rightarrow> Inr (Obj (set_prop ''id'' v ps))
      | Undefined \<Rightarrow> Inl TypeError | Null \<Rightarrow> Inl TypeError | _ \<Rightarrow> Inr x)"

definition row_index :: "nat \<Rightarrow> row list \<Rightarrow> nat option" where
  "row_index obj rs =
     (case filter (\<lambda>i. oid (rs ! i) = obj) [0 ..< length rs] of [] \<Rightarrow> None | i # _ \<Rightarrow> Some i)"

definition saveEdit_success :: "nat \<Rightarrow> string \<Rightarrow> int \<Rightarrow> jv \<Rightarrow> scope \<Rightarrow> outcome" where
  "saveEdit_success obj columnName patientId item s =
     (case row_index obj (rows s) of
        None \<Rightarrow> Inr s
      | Some r \<Rightarrow>
     (let items = get_prop (props (rows s ! r)) columnName
      in case index_of items (iix s) of
           Inl e \<Rightarrow> Inl (e, s)
         | Inr x \<Rightarrow>
     (case id_of item of
        Inl e \<Rightarrow> Inl (e, s)
      | Inr v \<Rightarrow>
     (case assign_id x v of
        Inl e \<Rightarrow> Inl (e, s)
      | Inr x' \<Rightarrow>
     (case assign_index items (iix s) x' of
        Inl e \<Rightarrow> Inl (e, s)
      | Inr items1 \<Rightarrow>
          (case items1 of
             Arr xs \<Rightarrow>
               Inr (s\<lparr>rows := set_cell r columnName (Arr (xs @ [placeholder patientId])) (rows s)\<rparr>)
           | _ \<Rightarrow> Inl (TypeError, s\<lparr>rows := set_cell r columnName items1 (rows s)\<rparr>)))))))"

text \<open>saveEditAndAdd (lines 225-229): an exception in saveEdit ends it there.\<close>

definition saveEditAndAdd :: "(jv \<Rightarrow> 'k::linorder) \<Rightarrow> scope \<Rightarrow> outcome" where
  "saveEditAndAdd rank s =
     (case saveEdit rank s of
        Inl es \<Rightarrow> Inl es
      | Inr s1 \<Rightarrow>
          (case getNumItems s1 (rix s1) (cix s1) of
             Inl e \<Rightarrow> Inl (e, s1)
           | Inr n \<Rightarrow> startEdit (s1\<lparr>iix := n - 1\<rparr>)))"

section \<open>Properties of the grid\<close>

text \<open>
  A cell that holds a non-empty array, and a grid in which the schema has arrived and
  every cell of a schema column is one.
\<close>

definition filled :: "(string \<times> jv) list \<Rightarrow> string \<Rightarrow> bool" where
  "filled ps k = (case get_prop ps k of Arr xs \<Rightarrow> xs \<noteq> [] | _ \<Rightarrow> False)"

definition cells_ok :: "scope \<Rightarrow> bool" where
  "cells_ok s =
     (case columns s of None \<Rightarrow> False
      | Some cols \<Rightarrow> list_all (\<lambda>rw. list_all (\<lambda>col. filled (props rw) (name col)) cols) (rows s))"

text \<open>
  The three counts of the grid, and the cursor within
  \<open>[0, rowCount) \<times> [0, columnCount) \<times> [0, itemCount(row, col))\<close>. The item count of a
  cell that getNumItems cannot read is 0, so no cursor is within it.
\<close>

definition rowCount :: "scope \<Rightarrow> int" where
  "rowCount s = int (length (rows s))"

definition columnCount :: "scope \<Rightarrow> int" where
  "columnCount s = (case columns s of None \<Rightarrow> 0 | Some cols \<Rightarrow> int (length cols))"

definition itemCount :: "scope \<Rightarrow> int \<Rightarrow> int \<Rightarrow> int" where
  "itemCount s r c = (case getNumItems s r c of Inl e \<Rightarrow> 0 | Inr n \<Rightarrow> n)"

definition cursor_ok :: "scope \<Rightarrow> bool" where
  "cursor_ok s =
     (0 \<le> rix s \<and> rix s < rowCount s \<and> 0 \<le> cix s \<and> cix s < columnCount s \<and>
      0 \<le> iix s \<and> iix s < itemCount s (rix s) (cix s))"

text \<open>
  The moves of the cursor as the specification words them: left and right reset the item
  index to 0 and clamp the column index to the valid range; up and down step within the
  item list, and at its boundary go to the last item of the previous row or the first
  item of the next one, with the row index clamped and no wraparound.
\<close>

definition spec_navigate :: "int \<Rightarrow> scope \<Rightarrow> scope" where
  "spec_navigate k s =
     (if k = 37 \<or> k = 72 then s\<lparr>cix := max 0 (cix s - 1), iix := 0\<rparr>
      else if k = 39 \<or> k = 76 then s\<lparr>cix := min (columnCount s - 1) (cix s + 1), iix := 0\<rparr>
      else if k = 38 \<or> k = 75 then
        (if 0 < iix s then s\<lparr>iix := iix s - 1\<rparr>
         else if 0 < rix s then s\<lparr>rix := rix s - 1, iix := itemCount s (rix s - 1) (cix s) - 1\<rparr>
         else s)
      else if k = 40 \<or> k = 74 then
        (if iix s + 1 < itemCount s (rix s) (cix s) then s\<lparr>iix := iix s + 1\<rparr>
         else if rix s + 1 < rowCount s then s\<lparr>rix := rix s + 1, iix := 0\<rparr>
         else s)
      else s)"

text \<open>
  The moves with the guard that the handlers have: left and right change the cursor only
  when a neighbouring column exists, and only then reset the item index; at the first and
  at the last column they leave the cursor, item index included, as it is. Up and down are
  as above.
\<close>

definition guarded_navigate :: "int \<Rightarrow> scope \<Rightarrow> scope" where
  "guarded_navigate k s =
     (if k = 37 \<or> k = 72 then
        (if 0 < cix s then s\<lparr>cix := cix s - 1, iix := 0\<rparr> else s)
      else if k = 39 \<or> k = 76 then
        (if cix s + 1 < columnCount s then s\<lparr>cix := cix s + 1, iix := 0\<rparr> else s)
      else if k = 38 \<or> k = 75 then
        (if 0 < iix s then s\<lparr>iix := iix s - 1\<rparr>
         else if 0 < rix s then s\<lparr>rix := rix s - 1, iix := itemCount s (rix s - 1) (cix s) - 1\<rparr>
         else s)
      else if k = 40 \<or> k = 74 then
        (if iix s + 1 < itemCount s (rix s) (cix s) then s\<lparr>iix := iix s + 1\<rparr>
         else if rix s + 1 < rowCount s then s\<lparr>rix := rix s + 1, iix := 0\<rparr>
         else s)
      else s)"

text \<open>Some handler of a sequence of key events throws; and the eight navigation keys.\<close>

fun throws :: "int list \<Rightarrow> scope \<Rightarrow> bool" where
  "throws [] s = False"
| "throws (k # ks) s = (case keypress k s of Inl es \<Rightarrow> True | Inr s' \<Rightarrow> throws ks s')"

definition nav_keys :: "int list" where
  "nav_keys = [37, 72, 39, 76, 38, 75, 40, 74]"

text \<open>
  The shapes of the load. A fetched patient is well shaped when each multi-valued column
  holds an array. \<open>column_done\<close> is the stored shape of one column: the scalar wrapped
  into a one-element array, or the array with the placeholder appended at its end.
\<close>

definition well_shaped :: "column list \<Rightarrow> patient \<Rightarrow> bool" where
  "well_shaped cols p =
     list_all (\<lambda>col. single col \<or> (case get_prop (snd p) (name col) of Arr xs \<Rightarrow> True | _ \<Rightarrow> False)) cols"

definition column_done :: "int \<Rightarrow> column \<Rightarrow> (string \<times> jv) list \<Rightarrow> (string \<times> jv) list \<Rightarrow> bool" where
  "column_done i col ps ps' =
     (if single col then get_prop ps' (name col) = Arr [get_prop ps (name col)]
      else (case get_prop ps (name col) of
              Arr xs \<Rightarrow> get_prop ps' (name col) = Arr (xs @ [Obj [(''patient'', Num i)]])
            | _ \<Rightarrow> False))"

definition normalized :: "column list \<Rightarrow> patient \<Rightarrow> row \<Rightarrow> bool" where
  "normalized cols p r =
     (rid r = fst p \<and> list_all (\<lambda>col. column_done (fst p) col (snd p) (props r)) cols)"

text \<open>The row list is sorted: each row's key is at most the next row's.\<close>

definition rows_sorted :: "(jv \<Rightarrow> 'k::linorder) \<Rightarrow> scope \<Rightarrow> bool" where
  "rows_sorted rank s = sorted (map (ordering_key rank) (rows s))"

text \<open>
  The scope saveEdit has built when it reaches the test on the kind of column (line 205),
  and the URL of the column.
\<close>

definition committed :: "string \<Rightarrow> jv \<Rightarrow> scope \<Rightarrow> scope" where
  "committed cn items' s =
     (clearModal cn (s\<lparr>istate := Normal\<rparr>))\<lparr>rows := set_cell (nat (rix s)) cn items' (rows s)\<rparr>"

definition edit_url :: "row \<Rightarrow> string \<Rightarrow> string" where
  "edit_url rw cn = ''patient/'' @ show_int (rid rw) @ ''/'' @ cn @ ''/''"



section \<open>A small grid\<close>

text \<open>
  Two patients under a schema of two single-valued columns and one multi-valued column, in
  the shape the loader leaves them: patient 7 has one diagnosis, patient 9 has none.
\<close>

definition demo_columns :: "column list" where
  "demo_columns = [\<lparr> name = ''demographics'', single = True \<rparr>,
                   \<lparr> name = ''location'', single = True \<rparr>,
                   \<lparr> name = ''diagnosis'', single = False \<rparr>]"

definition demo_rows :: "row list" where
  "demo_rows =
     [\<lparr> oid = 0, rid = 7, props =
         [(''demographics'', Arr [Obj [(''name'', Str ''Ann'')]]),
          (''location'', Arr [Obj [(''category'', Num 1), (''hospital'', Num 1),
                                   (''ward'', Num 2), (''bed'', Num 4)]]),
          (''diagnosis'', Arr [Obj [(''id'', Num 1), (''condition'', Str ''flu'')],
                               Obj [(''patient'', Num 7)]])] \<rparr>,
      \<lparr> oid = 1, rid = 9, props =
         [(''demographics'', Arr [Obj [(''name'', Str ''Bob'')]]),
          (''location'', Arr [Obj [(''category'', Num 1), (''hospital'', Num 1),
                                   (''ward'', Num 3), (''bed'', Num 1)]]),
          (''diagnosis'', Arr [Obj [(''patient'', Num 9)]])] \<rparr>]"

definition demo :: scope where
  "demo = \<lparr> istate = Normal, rows = demo_rows, columns = Some demo_columns,
            rix = 0, cix = 0, iix = 0, editing = Undefined, modals = [], requests = [],
            next_oid = 2 \<rparr>"

text \<open>An order of field values for the examples: numbers by value, everything else first.\<close>

definition num_rank :: "jv \<Rightarrow> int" where
  "num_rank v = (case v of Num n \<Rightarrow> n | _ \<Rightarrow> 0)"

text \<open>The scenario of the specification: one single-valued and one multi-valued column.\<close>

definition scenario_columns :: "column list" where
  "scenario_columns = [\<lparr> name = ''demographics'', single = True \<rparr>,
                       \<lparr> name = ''diagnosis'', single = False \<rparr>]"

definition scenario_patient :: patient where
  "scenario_patient =
     (7, [(''demographics'', Obj [(''name'', Str ''Ann'')]),
          (''diagnosis'', Arr [Obj [(''id'', Num 1), (''condition'', Str ''flu'')]])])"

definition scenario_scope :: scope where
  "scenario_scope = final (schema_success scenario_columns init)"

text \<open>The grid while patient 7's location is being edited, and a patient the server has created.\<close>

definition demo_edit :: scope where
  "demo_edit = demo\<lparr>istate := Editing, cix := 1,
     editing := Obj [(''category'', Num 1), (''hospital'', Num 1), (''ward'', Num 5), (''bed'', Num 2)],
     modals := [''location-modal'']\<rparr>"

definition new_patient :: patient where
  "new_patient =
     (8, [(''demographics'', Obj [(''name'', Str ''Cy'')]),
          (''location'', Obj [(''category'', Num 1), (''hospital'', Num 1),
                              (''ward'', Num 2), (''bed'', Num 9)])])"

text \<open>The schema has arrived and the server holds no patient.\<close>

definition empty_grid :: scope where
  "empty_grid = final (patients_success num_rank [] (final (schema_success demo_columns init)))"

text \<open>The cursor on patient 7's diagnosis column: on the real item, and on the placeholder.\<close>

definition on_item :: scope where
  "on_item = demo\<lparr>cix := 2, iix := 0\<rparr>"

definition on_placeholder :: scope where
  "on_placeholder = demo\<lparr>cix := 2, iix := 1\<rparr>"

text \<open>
  Two new diagnoses being entered on a placeholder: for patient 9, whose column holds only
  the placeholder, and for patient 7, after the one real item. Neither working copy has an
  \<^verbatim>\<open>id\<close>.
\<close>

definition first_entry :: scope where
  "first_entry = demo\<lparr>istate := Editing, rix := 1, cix := 2, iix := 0,
     editing := Obj [(''patient'', Num 9), (''condition'', Str ''cold'')],
     modals := [''diagnosis-modal'']\<rparr>"

definition second_entry :: scope where
  "second_entry = demo\<lparr>istate := Editing, rix := 0, cix := 2, iix := 1,
     editing := Obj [(''patient'', Num 7), (''condition'', Str ''cold'')],
     modals := [''diagnosis-modal'']\<rparr>"

text \<open>What the server answers to the create call for patient 7.\<close>

definition created_item :: jv where
  "created_item = Obj [(''id'', Num 5), (''patient'', Num 7), (''condition'', Str ''cold'')]"

text \<open>
  After the commit of patient 7's new diagnosis, and after the up key pressed before the
  server has answered.
\<close>

definition after_commit :: scope where
  "after_commit = final (saveEdit num_rank second_entry)"

definition moved_up :: scope where
  "moved_up = final (keypress 38 after_commit)"

text \<open>An edit of patient 7's existing diagnosis, which has an \<^verbatim>\<open>id\<close>.\<close>

definition existing_entry :: scope where
  "existing_entry = demo\<lparr>istate := Editing, rix := 0, cix := 2, iix := 0,
     editing := Obj [(''id'', Num 1), (''condition'', Str ''mumps'')],
     modals := [''diagnosis-modal'']\<rparr>"

text \<open>
  The same rows under the schema with its columns in reverse order, so that the
  multi-valued column comes first; the cursor on patient 7's placeholder there.
\<close>

definition multi_first :: scope where
  "multi_first = demo\<lparr>columns := Some (rev demo_columns), cix := 0, iix := 1\<rparr>"

section \<open>Basic facts\<close>

lemma map_of_set_prop: "map_of (set_prop k v ps) = (map_of ps)(k \<mapsto> v)"
  by (induction ps) (auto simp: fun_eq_iff)

lemma get_set_prop: "get_prop (set_prop k v ps) k' = (if k' = k then v else get_prop ps k')"
  by (simp add: get_prop_def map_of_set_prop)

lemma set_orderBy [simp]: "set (orderBy rank rs) = set rs"
  by (simp add: orderBy_def)

lemma sorted_orderBy: "sorted (map (ordering_key rank) (orderBy rank rs))"
  by (simp add: orderBy_def)

lemma column_at_cong: "columns s' = columns s \<Longrightarrow> column_at s' = column_at s"
  by (simp add: column_at_def fun_eq_iff)

lemma isSingleColumn_cong: "columns s' = columns s \<Longrightarrow> isSingleColumn s' c = isSingleColumn s c"
  using column_at_cong[of s' s] by (simp add: isSingleColumn_def)

lemma columns_clearModal [simp]: "columns (clearModal m s) = columns s"
  and rows_clearModal [simp]: "rows (clearModal m s) = rows s"
  and cursor_clearModal [simp]: "rix (clearModal m s) = rix s" "cix (clearModal m s) = cix s"
    "iix (clearModal m s) = iix s"
  and editing_clearModal [simp]: "editing (clearModal m s) = editing s"
  and istate_clearModal [simp]: "istate (clearModal m s) = istate s"
  and requests_clearModal [simp]: "requests (clearModal m s) = requests s"
  by (simp_all add: clearModal_def)

lemma send_fields [simp]:
  "columns (send m u b cb s) = columns s" "rows (send m u b cb s) = rows s"
  "rix (send m u b cb s) = rix s" "cix (send m u b cb s) = cix s" "iix (send m u b cb s) = iix s"
  "editing (send m u b cb s) = editing s" "istate (send m u b cb s) = istate s"
  "modals (send m u b cb s) = modals s"
  "requests (send m u b cb s) = requests s @ [\<lparr> verb = m, url = u, body = b, success = cb \<rparr>]"
  by (simp_all add: send_def)

lemma selectItem_fields [simp]:
  "columns (selectItem r c i s) = columns s" "rows (selectItem r c i s) = rows s"
  "rix (selectItem r c i s) = r" "cix (selectItem r c i s) = c" "iix (selectItem r c i s) = i"
  "editing (selectItem r c i s) = editing s" "istate (selectItem r c i s) = istate s"
  "modals (selectItem r c i s) = modals s" "requests (selectItem r c i s) = requests s"
  by (simp_all add: selectItem_def)

lemma atD: "at xs i = Some x \<Longrightarrow> 0 \<le> i \<and> nat i < length xs \<and> x = xs ! nat i"
  by (auto simp: at_def split: if_splits)

lemma set_cell_length [simp]: "length (set_cell r cn v rs) = length rs"
  by (simp add: set_cell_def)

lemma set_cell_rid [simp]: "map rid (set_cell r cn v rs) = map rid rs"
  by (cases "r < length rs") (simp_all add: set_cell_def map_update list_update_same_conv not_less list_update_beyond)

lemma set_cell_oid [simp]: "map oid (set_cell r cn v rs) = map oid rs"
  by (cases "r < length rs") (simp_all add: set_cell_def map_update list_update_same_conv not_less list_update_beyond)

lemma show_modal_fields [simp]:
  "columns (show_modal m s) = columns s" "rows (show_modal m s) = rows s"
  "rix (show_modal m s) = rix s" "cix (show_modal m s) = cix s" "iix (show_modal m s) = iix s"
  "editing (show_modal m s) = editing s" "istate (show_modal m s) = istate s"
  "requests (show_modal m s) = requests s"
  by (simp_all add: show_modal_def)

section \<open>Loading\<close>

lemma normalize_column_other:
  "normalize_column i col ps = Inr ps' \<Longrightarrow> k \<noteq> name col \<Longrightarrow> get_prop ps' k = get_prop ps k"
  by (auto simp: normalize_column_def get_set_prop split: if_splits jv.splits)

lemma normalize_columns_other:
  "normalize_columns i cols ps = Inr ps' \<Longrightarrow> k \<notin> name ` set cols \<Longrightarrow> get_prop ps' k = get_prop ps k"
proof (induction cols arbitrary: ps)
  case Nil
  then show ?case by simp
next
  case (Cons col cols)
  from Cons.prems(1) obtain ps1 where 1: "normalize_column i col ps = Inr ps1"
    and 2: "normalize_columns i cols ps1 = Inr ps'"
    by (auto split: sum.splits)
  have "get_prop ps' k = get_prop ps1 k" using Cons.IH[OF 2] Cons.prems(2) by simp
  also have "\<dots> = get_prop ps k" using normalize_column_other[OF 1] Cons.prems(2) by simp
  finally show ?case .
qed

lemma column_done_cong:
  "get_prop ps' (name col) = get_prop qs' (name col) \<Longrightarrow> get_prop ps (name col) = get_prop qs (name col)
   \<Longrightarrow> column_done i col ps ps' = column_done i col qs qs'"
  by (auto simp: column_done_def split: jv.splits)

lemma normalize_column_done:
  assumes "single col \<or> (case get_prop ps (name col) of Arr xs \<Rightarrow> True | _ \<Rightarrow> False)"
  shows "\<exists>ps'. normalize_column i col ps = Inr ps' \<and> column_done i col ps ps'"
  using assms
  by (auto simp: normalize_column_def column_done_def get_set_prop placeholder_def split: jv.splits)

lemma normalize_columns_done:
  assumes "distinct (map name cols)"
    "list_all (\<lambda>col. single col \<or> (case get_prop ps (name col) of Arr xs \<Rightarrow> True | _ \<Rightarrow> False)) cols"
  shows "\<exists>ps'. normalize_columns i cols ps = Inr ps' \<and> list_all (\<lambda>col. column_done i col ps ps') cols"
  using assms
proof (induction cols arbitrary: ps)
  case Nil
  then show ?case by simp
next
  case (Cons col cols)
  obtain ps1 where 1: "normalize_column i col ps = Inr ps1" and d1: "column_done i col ps ps1"
    using normalize_column_done[of col ps i] Cons.prems(2) by auto
  have other: "get_prop ps1 (name c) = get_prop ps (name c)" if "c \<in> set cols" for c :: column
  proof -
    have "name col \<notin> name ` set cols" using Cons.prems(1) by simp
    then have "name c \<noteq> name col" using that by (metis image_eqI)
    then show ?thesis by (rule normalize_column_other[OF 1])
  qed
  have sh: "list_all (\<lambda>col. single col \<or> (case get_prop ps1 (name col) of Arr xs \<Rightarrow> True | _ \<Rightarrow> False)) cols"
    using Cons.prems(2) other by (simp add: list_all_iff)
  obtain ps' where 2: "normalize_columns i cols ps1 = Inr ps'"
    and d2: "list_all (\<lambda>col. column_done i col ps1 ps') cols"
    using Cons.IH[OF _ sh] Cons.prems(1) by auto
  have "get_prop ps' (name col) = get_prop ps1 (name col)"
    using normalize_columns_other[OF 2, of "name col"] Cons.prems(1) by auto
  then have a: "column_done i col ps ps'"
    using d1 column_done_cong[of ps' col ps1 ps ps i] by simp
  have b: "list_all (\<lambda>col. column_done i col ps ps') cols"
    unfolding list_all_iff
  proof
    fix c assume c: "c \<in> set cols"
    then have "column_done i c ps1 ps'" using d2 by (simp add: list_all_iff)
    then show "column_done i c ps ps'"
      using column_done_cong[of ps' c ps' ps1 ps i] other[OF c] by simp
  qed
  show ?case using 1 2 a b by simp
qed

lemma normalize_rows_done:
  assumes "distinct (map name cols)" "list_all (well_shaped cols) fetched"
  shows "\<exists>rs. normalize_rows cols n fetched = Inr rs \<and> list_all2 (normalized cols) fetched rs"
  using assms(2)
proof (induction fetched arbitrary: n)
  case Nil
  then show ?case by simp
next
  case (Cons p ps)
  obtain ps' where 1: "normalize_columns (fst p) cols (snd p) = Inr ps'"
    and d: "list_all (\<lambda>col. column_done (fst p) col (snd p) ps') cols"
    using normalize_columns_done[OF assms(1), of "snd p" "fst p"] Cons.prems
    by (auto simp: well_shaped_def)
  obtain rs where 2: "normalize_rows cols (Suc n) ps = Inr rs" and r: "list_all2 (normalized cols) ps rs"
    using Cons.IH[of "Suc n"] Cons.prems by auto
  have "normalized cols p \<lparr> oid = n, rid = fst p, props = ps' \<rparr>"
    using d by (simp add: normalized_def)
  then show ?case using 1 2 r by simp
qed

text \<open>
  Claim C3. On the initial load, under a schema whose column names are distinct and for
  fetched rows whose multi-valued columns are arrays, the handler succeeds and stores, in
  the grid's order, one row per fetched row in which every schema column is normalized: a
  single-valued column holds the one-element array of the fetched value, a multi-valued
  column holds the fetched array with the placeholder \<open>{patient: id}\<close> appended at the
  end.
\<close>

theorem load_normalizes:
  assumes "columns s = Some cols" "distinct (map name cols)" "list_all (well_shaped cols) fetched"
  shows "\<exists>rs. patients_success rank fetched s =
                 Inr (s\<lparr>rows := orderBy rank rs, next_oid := next_oid s + length fetched\<rparr>) \<and>
              list_all2 (normalized cols) fetched rs \<and> mset (orderBy rank rs) = mset rs"
proof -
  obtain rs where 1: "normalize_rows cols (next_oid s) fetched = Inr rs"
    and 2: "list_all2 (normalized cols) fetched rs"
    using normalize_rows_done[OF assms(2,3)] by blast
  have 3: "mset (orderBy rank rs) = mset rs" by (simp add: orderBy_def)
  show ?thesis
  proof (cases "fetched = []")
    case True
    then have "rs = []" using 1 by simp
    then have "patients_success rank fetched s =
        Inr (s\<lparr>rows := orderBy rank rs, next_oid := next_oid s + length fetched\<rparr>)"
      using True by (simp add: patients_success_def)
    then show ?thesis using 2 3 by blast
  next
    case False
    then have "patients_success rank fetched s =
        Inr (s\<lparr>rows := orderBy rank rs, next_oid := next_oid s + length fetched\<rparr>)"
      using 1 assms(1) by (simp add: patients_success_def)
    then show ?thesis using 2 3 by blast
  qed
qed

theorem load_normalizes_witness:
  "columns scenario_scope = Some scenario_columns \<and> distinct (map name scenario_columns) \<and>
   list_all (well_shaped scenario_columns) [scenario_patient] \<and>
   (\<exists>rs. patients_success num_rank [scenario_patient] scenario_scope =
           Inr (scenario_scope\<lparr>rows := orderBy num_rank rs,
                  next_oid := next_oid scenario_scope + length [scenario_patient]\<rparr>) \<and>
         list_all2 (normalized scenario_columns) [scenario_patient] rs) \<and>
   rows (final (patients_success num_rank [scenario_patient] scenario_scope)) =
     [\<lparr> oid = 0, rid = 7, props =
         [(''demographics'', Arr [Obj [(''name'', Str ''Ann'')]]),
          (''diagnosis'', Arr [Obj [(''id'', Num 1), (''condition'', Str ''flu'')],
                               Obj [(''patient'', Num 7)]])] \<rparr>]"
proof -
  have h1: "columns scenario_scope = Some scenario_columns" by code_simp
  have h2: "distinct (map name scenario_columns)" by code_simp
  have h3: "list_all (well_shaped scenario_columns) [scenario_patient]" by code_simp
  have r: "rows (final (patients_success num_rank [scenario_patient] scenario_scope)) =
     [\<lparr> oid = 0, rid = 7, props =
         [(''demographics'', Arr [Obj [(''name'', Str ''Ann'')]]),
          (''diagnosis'', Arr [Obj [(''id'', Num 1), (''condition'', Str ''flu'')],
                               Obj [(''patient'', Num 7)]])] \<rparr>]" by code_simp
  show ?thesis
    using load_normalizes[OF h1 h2 h3, of num_rank] h1 h2 h3 r by blast
qed

section \<open>Every cell holds an item\<close>

text \<open>
  The loader and the success handler of saveAdd leave a non-empty array in every cell of
  a schema column: the grids that navigation runs on.
\<close>

lemma cells_ok_filled:
  "cells_ok s \<longleftrightarrow> (\<exists>cols. columns s = Some cols \<and>
      (\<forall>rw\<in>set (rows s). \<forall>col\<in>set cols. filled (props rw) (name col)))"
  by (cases "columns s") (simp_all add: cells_ok_def list_all_iff)

lemma normalize_column_filled:
  assumes "normalize_column i col ps = Inr ps'"
  shows "filled ps' (name col)" and "filled ps k \<Longrightarrow> filled ps' k"
  using assms
  by (auto simp: normalize_column_def filled_def get_set_prop split: if_splits jv.splits)

lemma normalize_columns_filled:
  assumes "normalize_columns i cols ps = Inr ps'"
  shows "(\<forall>col\<in>set cols. filled ps' (name col)) \<and> (\<forall>k. filled ps k \<longrightarrow> filled ps' k)"
  using assms
proof (induction cols arbitrary: ps)
  case Nil
  then show ?case by simp
next
  case (Cons col cols)
  from Cons.prems obtain ps1 where 1: "normalize_column i col ps = Inr ps1"
    and 2: "normalize_columns i cols ps1 = Inr ps'"
    by (auto split: sum.splits)
  note ih = Cons.IH[OF 2]
  show ?case using ih normalize_column_filled[OF 1] by auto
qed

lemma normalize_rows_filled:
  assumes "normalize_rows cols n fetched = Inr rs"
  shows "\<forall>rw\<in>set rs. \<forall>col\<in>set cols. filled (props rw) (name col)"
  using assms
proof (induction fetched arbitrary: n rs)
  case Nil
  then show ?case by simp
next
  case (Cons p ps)
  from Cons.prems obtain ps' rs' where 1: "normalize_columns (fst p) cols (snd p) = Inr ps'"
    and 2: "normalize_rows cols (Suc n) ps = Inr rs'"
    and 3: "rs = \<lparr> oid = n, rid = fst p, props = ps' \<rparr> # rs'"
    by (auto split: sum.splits)
  show ?case unfolding 3 using Cons.IH[OF 2] normalize_columns_filled[OF 1] by simp
qed

lemma loaded_cells_ok:
  assumes "columns s = Some cols" "patients_success rank fetched s = Inr s'"
  shows "cells_ok s'"
proof (cases "fetched = []")
  case True
  then show ?thesis using assms by (auto simp: patients_success_def cells_ok_filled orderBy_def)
next
  case False
  then obtain rs where 1: "normalize_rows cols (next_oid s) fetched = Inr rs"
    and 2: "s' = s\<lparr>rows := orderBy rank rs, next_oid := next_oid s + length fetched\<rparr>"
    using assms by (auto simp: patients_success_def split: sum.splits)
  show ?thesis unfolding 2 using normalize_rows_filled[OF 1] assms(1)
    by (simp add: cells_ok_filled)
qed

lemma seed_column_filled:
  "filled (seed_column i col ps) (name col)" "filled ps k \<Longrightarrow> filled (seed_column i col ps) k"
  by (auto simp: seed_column_def filled_def get_set_prop placeholder_def)

lemma seed_columns_filled:
  "(\<forall>col\<in>set cols. filled (foldl (\<lambda>ps col. seed_column i col ps) ps cols) (name col)) \<and>
   (\<forall>k. filled ps k \<longrightarrow> filled (foldl (\<lambda>ps col. seed_column i col ps) ps cols) k)"
proof (induction cols arbitrary: ps)
  case Nil
  then show ?case by simp
next
  case (Cons col cols)
  show ?case using Cons.IH[of "seed_column i col ps"] seed_column_filled[where i=i and col=col and ps=ps] by auto
qed

lemma added_cells_ok:
  assumes "cells_ok s" "saveAdd_success rank p s = Inr s'"
  shows "cells_ok s'"
proof -
  obtain cols where c: "columns s = Some cols"
    and old: "\<forall>rw\<in>set (rows s). \<forall>col\<in>set cols. filled (props rw) (name col)"
    using assms(1) by (auto simp: cells_ok_filled)
  define r where "r = \<lparr> oid = next_oid s, rid = fst p,
                     props = foldl (\<lambda>ps col. seed_column (fst p) col ps) (snd p) cols \<rparr>"
  obtain ix where "s' = selectItem ix 0 0
      (s\<lparr>rows := rows s @ [r], next_oid := Suc (next_oid s)\<rparr>
        \<lparr>rows := orderBy rank (rows (s\<lparr>rows := rows s @ [r], next_oid := Suc (next_oid s)\<rparr>))\<rparr>)"
    using assms(2) c by (auto simp: saveAdd_success_def Let_def r_def split: sum.splits)
  then have s': "rows s' = orderBy rank (rows s @ [r])" "columns s' = Some cols"
    using c by simp_all
  have "\<forall>col\<in>set cols. filled (props r) (name col)"
    using seed_columns_filled[where cols=cols and i="fst p" and ps="snd p"] by (simp add: r_def)
  then show ?thesis using old s' by (auto simp: cells_ok_filled)
qed

section \<open>Row order\<close>

lemma saveEdit_if_single:
  assumes "getCurrentColumnName s = Inr cn" "at (rows s) (rix s) = Some rw"
    "assign_index (get_prop (props rw) cn) (iix s) (clone (editing s)) = Inr items'"
    "isSingleColumn s (cix s) = Inr True"
  shows "saveEdit rank s = saveEdit_single rank cn (rid rw) (edit_url rw cn) (committed cn items' s)"
proof -
  have "isSingleColumn (committed cn items' s) (cix s) = Inr True"
    using assms(4) isSingleColumn_cong[of "committed cn items' s" s "cix s"]
    by (simp add: committed_def)
  then show ?thesis using assms(1,2,3)
    by (simp add: saveEdit_def Let_def committed_def edit_url_def)
qed

lemma saveEdit_if_multi:
  assumes "getCurrentColumnName s = Inr cn" "at (rows s) (rix s) = Some rw"
    "assign_index (get_prop (props rw) cn) (iix s) (clone (editing s)) = Inr items'"
    "isSingleColumn s (cix s) = Inr False"
  shows "saveEdit rank s = saveEdit_multi (oid rw) cn (rid rw) (edit_url rw cn) (committed cn items' s)"
proof -
  have "isSingleColumn (committed cn items' s) (cix s) = Inr False"
    using assms(4) isSingleColumn_cong[of "committed cn items' s" s "cix s"]
    by (simp add: committed_def)
  then show ?thesis using assms(1,2,3)
    by (simp add: saveEdit_def Let_def committed_def edit_url_def)
qed


lemma load_sorted:
  assumes "patients_success rank fetched s = Inr s'"
  shows "rows_sorted rank s'"
proof (cases "fetched = []")
  case True
  then show ?thesis using assms by (auto simp: patients_success_def rows_sorted_def orderBy_def)
next
  case False
  then obtain cols rs where "s' = s\<lparr>rows := orderBy rank rs, next_oid := next_oid s + length fetched\<rparr>"
    using assms by (auto simp: patients_success_def split: option.splits sum.splits)
  then show ?thesis by (simp add: rows_sorted_def sorted_orderBy)
qed

lemma add_sorted:
  assumes "saveAdd_success rank p s = Inr s'"
  shows "rows_sorted rank s' \<and> (\<exists>r. rid r = fst p \<and> mset (rows s') = add_mset r (mset (rows s)))"
proof -
  obtain cols where c: "columns s = Some cols"
    using assms by (cases "columns s") (simp_all add: saveAdd_success_def)
  define r where "r = \<lparr> oid = next_oid s, rid = fst p,
                     props = foldl (\<lambda>ps col. seed_column (fst p) col ps) (snd p) cols \<rparr>"
  obtain ix where "s' = selectItem ix 0 0
      (s\<lparr>rows := rows s @ [r], next_oid := Suc (next_oid s)\<rparr>
        \<lparr>rows := orderBy rank (rows (s\<lparr>rows := rows s @ [r], next_oid := Suc (next_oid s)\<rparr>))\<rparr>)"
    using assms c by (auto simp: saveAdd_success_def Let_def r_def split: sum.splits)
  then have rows: "rows s' = orderBy rank (rows s @ [r])" by simp
  have "rid r = fst p" by (simp add: r_def)
  moreover have "mset (rows s') = add_mset r (mset (rows s))" by (simp add: rows orderBy_def)
  moreover have "rows_sorted rank s'" by (simp add: rows_sorted_def rows sorted_orderBy)
  ultimately show ?thesis by blast
qed

lemma saveEdit_reads:
  assumes "saveEdit rank s = Inr s'"
  obtains cn rw items' where "getCurrentColumnName s = Inr cn" "at (rows s) (rix s) = Some rw"
    "assign_index (get_prop (props rw) cn) (iix s) (clone (editing s)) = Inr items'"
proof -
  obtain cn where 1: "getCurrentColumnName s = Inr cn"
    using assms by (cases "getCurrentColumnName s") (simp_all add: saveEdit_def)
  obtain rw where 2: "at (rows s) (rix s) = Some rw"
    using assms 1 by (cases "at (rows s) (rix s)") (simp_all add: saveEdit_def)
  obtain items' where 3: "assign_index (get_prop (props rw) cn) (iix s) (clone (editing s)) = Inr items'"
    using assms 1 2
    by (cases "assign_index (get_prop (props rw) cn) (iix s) (clone (editing s))")
       (simp_all add: saveEdit_def Let_def)
  show thesis using that[OF 1 2 3] .
qed

lemma location_edit_sorted:
  assumes "getCurrentColumnName s = Inr ''location''" "isSingleColumn s (cix s) = Inr True"
    "saveEdit rank s = Inr s'"
  shows "rows_sorted rank s'"
proof -
  obtain cn rw items' where r: "getCurrentColumnName s = Inr cn" "at (rows s) (rix s) = Some rw"
    "assign_index (get_prop (props rw) cn) (iix s) (clone (editing s)) = Inr items'"
    using saveEdit_reads[OF assms(3)] by blast
  have cn: "cn = ''location''" using r(1) assms(1) by simp
  have "saveEdit_single rank cn (rid rw) (edit_url rw cn) (committed cn items' s) = Inr s'"
    using saveEdit_if_single[OF r assms(2), of rank] assms(3) by simp
  then have "rows s' = orderBy rank (rows (committed cn items' s))"
    unfolding cn by (auto simp: saveEdit_single_def Let_def split: sum.splits)
  then show ?thesis by (simp add: rows_sorted_def sorted_orderBy)
qed

text \<open>
  Claim C2. The row list is sorted ascending by the key (category, hospital, ward, bed) of
  \<open>location[0]\<close> after each of the three events that can change the order: after the
  initial load, after a successful add (which inserts the new row, once), and after an
  edit of the single-valued location column. The sort is stable: rows of equal key keep
  their order.
\<close>

theorem rows_always_sorted:
  "(patients_success rank fetched s = Inr s' \<longrightarrow> rows_sorted rank s') \<and>
   (saveAdd_success rank p s = Inr s' \<longrightarrow>
      rows_sorted rank s' \<and> (\<exists>r. rid r = fst p \<and> mset (rows s') = add_mset r (mset (rows s)))) \<and>
   (getCurrentColumnName s = Inr ''location'' \<and> isSingleColumn s (cix s) = Inr True \<and>
    saveEdit rank s = Inr s' \<longrightarrow> rows_sorted rank s') \<and>
   (\<forall>k. filter (\<lambda>r. ordering_key rank r = k) (orderBy rank rs) =
        filter (\<lambda>r. ordering_key rank r = k) rs)"
  using load_sorted[of rank fetched s s'] add_sorted[of rank p s s']
    location_edit_sorted[of s rank s']
  by (simp add: orderBy_def sort_key_stable)

theorem rows_always_sorted_witness:
  "patients_success num_rank [scenario_patient] scenario_scope =
     Inr (final (patients_success num_rank [scenario_patient] scenario_scope)) \<and>
   rows_sorted num_rank (final (patients_success num_rank [scenario_patient] scenario_scope)) \<and>
   saveAdd_success num_rank new_patient demo = Inr (final (saveAdd_success num_rank new_patient demo)) \<and>
   rows_sorted num_rank (final (saveAdd_success num_rank new_patient demo)) \<and>
   map rid (rows (final (saveAdd_success num_rank new_patient demo))) = [7, 8, 9] \<and>
   getCurrentColumnName demo_edit = Inr ''location'' \<and>
   isSingleColumn demo_edit (cix demo_edit) = Inr True \<and>
   saveEdit num_rank demo_edit = Inr (final (saveEdit num_rank demo_edit)) \<and>
   rows_sorted num_rank (final (saveEdit num_rank demo_edit)) \<and>
   map rid (rows (final (saveEdit num_rank demo_edit))) = [9, 7]"
proof -
  have a: "patients_success num_rank [scenario_patient] scenario_scope =
     Inr (final (patients_success num_rank [scenario_patient] scenario_scope))" by code_simp
  have b: "saveAdd_success num_rank new_patient demo =
     Inr (final (saveAdd_success num_rank new_patient demo))" by code_simp
  have b2: "map rid (rows (final (saveAdd_success num_rank new_patient demo))) = [7, 8, 9]"
    by code_simp
  have c1: "getCurrentColumnName demo_edit = Inr ''location''" by code_simp
  have c2: "isSingleColumn demo_edit (cix demo_edit) = Inr True" by code_simp
  have c3: "saveEdit num_rank demo_edit = Inr (final (saveEdit num_rank demo_edit))" by code_simp
  have c4: "map rid (rows (final (saveEdit num_rank demo_edit))) = [9, 7]" by code_simp
  show ?thesis
    using rows_always_sorted[of num_rank "[scenario_patient]" scenario_scope
        "final (patients_success num_rank [scenario_patient] scenario_scope)"]
      rows_always_sorted[of num_rank _ demo "final (saveAdd_success num_rank new_patient demo)" new_patient]
      rows_always_sorted[of num_rank _ demo_edit "final (saveEdit num_rank demo_edit)"]
      a b b2 c1 c2 c3 c4
    by blast
qed

section \<open>Navigation\<close>

lemma getNumItems_cong:
  "rows s' = rows s \<Longrightarrow> columns s' = columns s \<Longrightarrow> getNumItems s' r c = getNumItems s r c"
  by (simp add: getNumItems_def cell_def column_at_def split: option.splits sum.splits)

lemma getNumItems_upd:
  "getNumItems (s\<lparr>rix := a\<rparr>) = getNumItems s"
  "getNumItems (s\<lparr>cix := a\<rparr>) = getNumItems s"
  "getNumItems (s\<lparr>iix := a\<rparr>) = getNumItems s"
  by (intro ext getNumItems_cong; simp)+

lemma cursor_okI:
  "columns s = Some cols \<Longrightarrow> 0 \<le> rix s \<Longrightarrow> rix s < int (length (rows s)) \<Longrightarrow> 0 \<le> cix s \<Longrightarrow>
   cix s < int (length cols) \<Longrightarrow> getNumItems s (rix s) (cix s) = Inr n \<Longrightarrow> 0 \<le> iix s \<Longrightarrow> iix s < n
   \<Longrightarrow> cursor_ok s"
  by (simp add: cursor_ok_def rowCount_def columnCount_def itemCount_def)

lemma cursor_okD:
  assumes "cursor_ok s"
  obtains cols n where "columns s = Some cols" "0 \<le> rix s" "rix s < int (length (rows s))"
    "0 \<le> cix s" "cix s < int (length cols)" "getNumItems s (rix s) (cix s) = Inr n"
    "0 \<le> iix s" "iix s < n"
proof -
  from assms have a: "0 \<le> rix s" "rix s < int (length (rows s))" "0 \<le> cix s"
    "cix s < columnCount s" "0 \<le> iix s" "iix s < itemCount s (rix s) (cix s)"
    by (simp_all add: cursor_ok_def rowCount_def)
  from a(3,4) obtain cols where c: "columns s = Some cols" "cix s < int (length cols)"
    by (cases "columns s") (simp_all add: columnCount_def)
  from a(5,6) obtain n where n: "getNumItems s (rix s) (cix s) = Inr n" "iix s < n"
    by (cases "getNumItems s (rix s) (cix s)") (simp_all add: itemCount_def)
  show thesis using that[OF c(1) a(1,2,3) c(2) n(1) a(5) n(2)] .
qed


lemma getNumItems_ok:
  assumes "cells_ok s" "columns s = Some cols"
    "0 \<le> r" "r < int (length (rows s))" "0 \<le> c" "c < int (length cols)"
  shows "\<exists>n. getNumItems s r c = Inr n \<and> 1 \<le> n"
proof -
  have a: "at (rows s) r = Some (rows s ! nat r)" "at cols c = Some (cols ! nat c)"
    using assms by (simp_all add: at_def)
  have "nat r < length (rows s)" "nat c < length cols" using assms by auto
  then have "case get_prop (props (rows s ! nat r)) (name (cols ! nat c)) of
          Arr xs \<Rightarrow> xs \<noteq> [] | _ \<Rightarrow> False"
    using assms(1,2) by (simp add: cells_ok_def list_all_length filled_def)
  then obtain xs where "get_prop (props (rows s ! nat r)) (name (cols ! nat c)) = Arr xs" "xs \<noteq> []"
    by (auto split: jv.splits)
  then show ?thesis using a assms(2)
    by (cases xs) (simp_all add: getNumItems_def cell_def column_at_def)
qed

lemma nav_step:
  assumes "istate s = Normal" "cells_ok s" "cursor_ok s" "k \<in> set nav_keys"
  shows "\<exists>s'. keypress k s = Inr s' \<and> istate s' = Normal \<and> rows s' = rows s \<and>
           columns s' = columns s \<and> cursor_ok s'"
proof -
  from assms(3) obtain cols n where c: "columns s = Some cols"
    and r: "0 \<le> rix s" "rix s < int (length (rows s))" "0 \<le> cix s" "cix s < int (length cols)"
    and n: "getNumItems s (rix s) (cix s) = Inr n" "0 \<le> iix s" "iix s < n"
    by (rule cursor_okD)
  have num: "\<And>r' c'. 0 \<le> r' \<Longrightarrow> r' < int (length (rows s)) \<Longrightarrow> 0 \<le> c' \<Longrightarrow> c' < int (length cols)
     \<Longrightarrow> \<exists>m. getNumItems s r' c' = Inr m \<and> 1 \<le> m"
    using getNumItems_ok[OF assms(2) c] by blast
  have kp: "keypress k s = handleKeypressNormal k s"
    using assms(1) by (simp add: keypress_def)
  consider "k = 37 \<or> k = 72" | "k = 39 \<or> k = 76" | "k = 38 \<or> k = 75" | "k = 40 \<or> k = 74"
    using assms(4) by (auto simp: nav_keys_def)
  then show ?thesis
  proof cases
    case 1
    then have h: "keypress k s = goLeft s" unfolding kp by (elim disjE; simp add: handleKeypressNormal_def)
    show ?thesis
    proof (cases "cix s > 0")
      case True
      define s' where "s' = s\<lparr>cix := cix s - 1, iix := 0\<rparr>"
      obtain m where m: "getNumItems s (rix s) (cix s - 1) = Inr m" "1 \<le> m"
        using num[of "rix s" "cix s - 1"] r True by auto
      have "getNumItems s' (rix s') (cix s') = Inr m"
        using m(1) by (simp add: s'_def getNumItems_upd)
      then have "cursor_ok s'"
        using c r m(2) True by (intro cursor_okI[where cols=cols and n=m]) (simp_all add: s'_def)
      moreover have "goLeft s = Inr s'" using True by (simp add: goLeft_def s'_def)
      ultimately show ?thesis using h assms(1) by (simp add: s'_def)
    next
      case False
      then show ?thesis using h assms(1,3) by (simp add: goLeft_def)
    qed
  next
    case 2
    then have h: "keypress k s = goRight s" unfolding kp by (elim disjE; simp add: handleKeypressNormal_def)
    show ?thesis
    proof (cases "cix s < int (length cols) - 1")
      case True
      define s' where "s' = s\<lparr>cix := cix s + 1, iix := 0\<rparr>"
      obtain m where m: "getNumItems s (rix s) (cix s + 1) = Inr m" "1 \<le> m"
        using num[of "rix s" "cix s + 1"] r True by auto
      have "getNumItems s' (rix s') (cix s') = Inr m"
        using m(1) by (simp add: s'_def getNumItems_upd)
      then have "cursor_ok s'"
        using c r m(2) True by (intro cursor_okI[where cols=cols and n=m]) (simp_all add: s'_def)
      moreover have "goRight s = Inr s'" using True c by (simp add: goRight_def s'_def)
      ultimately show ?thesis using h assms(1) by (simp add: s'_def)
    next
      case False
      then show ?thesis using h assms(1,3) c by (simp add: goRight_def)
    qed
  next
    case 3
    then have h: "keypress k s = goUp s" unfolding kp by (elim disjE; simp add: handleKeypressNormal_def)
    show ?thesis
    proof (cases "iix s > 0")
      case True
      define s' where "s' = s\<lparr>iix := iix s - 1\<rparr>"
      have "getNumItems s' (rix s') (cix s') = Inr n"
        using n(1) by (simp add: s'_def getNumItems_upd)
      then have "cursor_ok s'"
        using c r n True by (intro cursor_okI[where cols=cols and n=n]) (simp_all add: s'_def)
      moreover have "goUp s = Inr s'" using True by (simp add: goUp_def s'_def)
      ultimately show ?thesis using h assms(1) by (simp add: s'_def)
    next
      case False
      show ?thesis
      proof (cases "rix s > 0")
        case True
        obtain m where m: "getNumItems s (rix s - 1) (cix s) = Inr m" "1 \<le> m"
          using num[of "rix s - 1" "cix s"] r True by auto
        define s' where "s' = s\<lparr>rix := rix s - 1, iix := m - 1\<rparr>"
        have g: "getNumItems (s\<lparr>rix := rix s - 1\<rparr>) (rix s - 1) (cix s) = Inr m"
          using m(1) by (simp add: getNumItems_upd)
        have "getNumItems s' (rix s') (cix s') = Inr m"
          using m(1) by (simp add: s'_def getNumItems_upd)
        then have "cursor_ok s'"
          using c r m(2) True by (intro cursor_okI[where cols=cols and n=m]) (simp_all add: s'_def)
        moreover have "goUp s = Inr s'" using True False g by (simp add: goUp_def s'_def)
        ultimately show ?thesis using h assms(1) by (simp add: s'_def)
      next
        case F2: False
        then show ?thesis using h False assms(1,3) by (simp add: goUp_def)
      qed
    qed
  next
    case 4
    then have h: "keypress k s = goDown s" unfolding kp by (elim disjE; simp add: handleKeypressNormal_def)
    show ?thesis
    proof (cases "iix s < n - 1")
      case True
      define s' where "s' = s\<lparr>iix := iix s + 1\<rparr>"
      have "getNumItems s' (rix s') (cix s') = Inr n"
        using n(1) by (simp add: s'_def getNumItems_upd)
      then have "cursor_ok s'"
        using c r n True by (intro cursor_okI[where cols=cols and n=n]) (simp_all add: s'_def)
      moreover have "goDown s = Inr s'" using True n by (simp add: goDown_def s'_def)
      ultimately show ?thesis using h assms(1) by (simp add: s'_def)
    next
      case False
      show ?thesis
      proof (cases "rix s < int (length (rows s)) - 1")
        case True
        obtain m where m: "getNumItems s (rix s + 1) (cix s) = Inr m" "1 \<le> m"
          using num[of "rix s + 1" "cix s"] r True by auto
        define s' where "s' = s\<lparr>rix := rix s + 1, iix := 0\<rparr>"
        have "getNumItems s' (rix s') (cix s') = Inr m"
          using m(1) by (simp add: s'_def getNumItems_upd)
        then have "cursor_ok s'"
          using c r m(2) True by (intro cursor_okI[where cols=cols and n=m]) (simp_all add: s'_def)
        moreover have "goDown s = Inr s'" using True False n by (simp add: goDown_def s'_def)
        ultimately show ?thesis using h assms(1) by (simp add: s'_def)
      next
        case F2: False
        then show ?thesis using h False assms(1,3) n by (simp add: goDown_def)
      qed
    qed
  qed
qed


lemma key_left:
  assumes "k = 37 \<or> k = 72"
  shows "handleKeypressNormal k s = goLeft s"
    "guarded_navigate k s = (if 0 < cix s then s\<lparr>cix := cix s - 1, iix := 0\<rparr> else s)"
  using assms by (elim disjE; simp add: handleKeypressNormal_def guarded_navigate_def)+

lemma key_right:
  assumes "k = 39 \<or> k = 76"
  shows "handleKeypressNormal k s = goRight s"
    "guarded_navigate k s = (if cix s + 1 < columnCount s then s\<lparr>cix := cix s + 1, iix := 0\<rparr> else s)"
  using assms by (elim disjE; simp add: handleKeypressNormal_def guarded_navigate_def)+

lemma key_up:
  assumes "k = 38 \<or> k = 75"
  shows "handleKeypressNormal k s = goUp s"
    "guarded_navigate k s =
        (if 0 < iix s then s\<lparr>iix := iix s - 1\<rparr>
         else if 0 < rix s then s\<lparr>rix := rix s - 1, iix := itemCount s (rix s - 1) (cix s) - 1\<rparr>
         else s)"
  using assms by (elim disjE; simp add: handleKeypressNormal_def guarded_navigate_def)+

lemma key_down:
  assumes "k = 40 \<or> k = 74"
  shows "handleKeypressNormal k s = goDown s"
    "guarded_navigate k s =
        (if iix s + 1 < itemCount s (rix s) (cix s) then s\<lparr>iix := iix s + 1\<rparr>
         else if rix s + 1 < rowCount s then s\<lparr>rix := rix s + 1, iix := 0\<rparr>
         else s)"
  using assms by (elim disjE; simp add: handleKeypressNormal_def guarded_navigate_def)+

lemma nav_spec:
  assumes "istate s = Normal" "cells_ok s" "cursor_ok s" "k \<in> set nav_keys"
  shows "keypress k s = Inr (guarded_navigate k s)"
proof -
  from assms(3) obtain cols n where c: "columns s = Some cols"
    and r: "0 \<le> rix s" "rix s < int (length (rows s))" "0 \<le> cix s" "cix s < int (length cols)"
    and n: "getNumItems s (rix s) (cix s) = Inr n" "0 \<le> iix s" "iix s < n"
    by (rule cursor_okD)
  have kp: "keypress k s = handleKeypressNormal k s"
    using assms(1) by (simp add: keypress_def)
  consider "k = 37 \<or> k = 72" | "k = 39 \<or> k = 76" | "k = 38 \<or> k = 75" | "k = 40 \<or> k = 74"
    using assms(4) by (auto simp: nav_keys_def)
  then show ?thesis
  proof cases
    case 1
    show ?thesis unfolding kp key_left[OF 1] by (simp add: goLeft_def)
  next
    case 2
    show ?thesis unfolding kp key_right[OF 2] using c
      by (simp add: goRight_def columnCount_def)
  next
    case 3
    show ?thesis
    proof (cases "0 < rix s \<and> \<not> 0 < iix s")
      case True
      obtain m where m: "getNumItems s (rix s - 1) (cix s) = Inr m"
        using getNumItems_ok[OF assms(2) c, of "rix s - 1" "cix s"] r True by auto
      then show ?thesis using True unfolding kp key_up[OF 3]
        by (simp add: goUp_def itemCount_def getNumItems_upd)
    next
      case False
      then show ?thesis unfolding kp key_up[OF 3] by (auto simp: goUp_def)
    qed
  next
    case 4
    show ?thesis unfolding kp key_down[OF 4] using n
      by (simp add: goDown_def itemCount_def rowCount_def)
  qed
qed

lemma cells_ok_cong: "rows s' = rows s \<Longrightarrow> columns s' = columns s \<Longrightarrow> cells_ok s' = cells_ok s"
  by (simp add: cells_ok_def split: option.splits)

lemma guarded_against_spec:
  assumes "cursor_ok s" "k \<in> set nav_keys"
  shows "guarded_navigate k s =
           (if ((k = 37 \<or> k = 72) \<and> cix s = 0) \<or> ((k = 39 \<or> k = 76) \<and> cix s + 1 = columnCount s)
            then s else spec_navigate k s)"
proof -
  have c: "0 \<le> cix s" "cix s < columnCount s" using assms(1) by (simp_all add: cursor_ok_def)
  consider "k = 37 \<or> k = 72" | "k = 39 \<or> k = 76" | "k = 38 \<or> k = 75" | "k = 40 \<or> k = 74"
    using assms(2) by (auto simp: nav_keys_def)
  then show ?thesis
  proof cases
    case 1
    then show ?thesis using c by (elim disjE; simp add: guarded_navigate_def spec_navigate_def)
  next
    case 2
    then show ?thesis using c by (elim disjE; simp add: guarded_navigate_def spec_navigate_def)
  next
    case 3
    then show ?thesis by (elim disjE; simp add: guarded_navigate_def spec_navigate_def)
  next
    case 4
    then show ?thesis by (elim disjE; simp add: guarded_navigate_def spec_navigate_def)
  qed
qed

text \<open>
  Claim C1, as amended. In the normal state, on a grid whose cells each hold at least one
  item (the shape the loader and saveAdd build, \<open>loaded_cells_ok\<close> and
  \<open>added_cells_ok\<close>), starting from a cursor with row index in \<open>[0, rowCount)\<close>, column
  index in \<open>[0, columnCount)\<close> and item index in \<open>[0, itemCount(row, col))\<close>, every
  sequence of the keys left, right, up, down, h, l, k, j is handled without an exception,
  the cursor after it is again within these three ranges, and each key moves the cursor as
  \<open>guarded_navigate\<close> says: left and right step the column, and set the item index to 0,
  only when a neighbouring column exists, and otherwise leave the cursor with its item
  index as it is; up and down step within the item list and at its end go to the last
  item of the previous row or the first item of the next row, staying put at the first
  and last row. Rows, columns and the interaction state are untouched. This is the
  specification's wording (\<open>spec_navigate\<close>) except for left at the first and right at the
  last column (\<open>guarded_against_spec\<close>).
\<close>

theorem navigation_stays_in_grid:
  assumes "istate s = Normal" "cells_ok s" "cursor_ok s" "set ks \<subseteq> set nav_keys"
  shows "\<not> throws ks s \<and> keypresses ks s = foldl (\<lambda>t k. guarded_navigate k t) s ks \<and>
         cursor_ok (keypresses ks s) \<and> rows (keypresses ks s) = rows s \<and>
         columns (keypresses ks s) = columns s \<and> istate (keypresses ks s) = Normal"
  using assms
proof (induction ks arbitrary: s)
  case Nil
  then show ?case by simp
next
  case (Cons k ks)
  have k: "k \<in> set nav_keys" and ks: "set ks \<subseteq> set nav_keys" using Cons.prems(4) by auto
  obtain s' where s': "keypress k s = Inr s'" "istate s' = Normal" "rows s' = rows s"
    "columns s' = columns s" "cursor_ok s'"
    using nav_step[OF Cons.prems(1,2,3) k] by blast
  have eq: "s' = guarded_navigate k s"
    using nav_spec[OF Cons.prems(1,2,3) k] s'(1) by simp
  have c': "cells_ok s'" using Cons.prems(2) cells_ok_cong[OF s'(3,4)] by simp
  note ih = Cons.IH[OF s'(2) c' s'(5) ks]
  have 1: "throws (k # ks) s = throws ks s'" using s'(1) by simp
  have 2: "keypresses (k # ks) s = keypresses ks s'" using s'(1) by (simp add: final_def)
  have 3: "foldl (\<lambda>t k. guarded_navigate k t) s (k # ks) = foldl (\<lambda>t k. guarded_navigate k t) s' ks"
    by (simp add: eq)
  show ?case unfolding 1 2 3 using ih s'(3,4) by auto
qed

theorem navigation_stays_in_grid_witness:
  "istate demo = Normal \<and> cells_ok demo \<and> cursor_ok demo \<and>
   set [40, 76, 76, 74, 38, 72] \<subseteq> set nav_keys \<and>
   \<not> throws [40, 76, 76, 74, 38, 72] demo \<and>
   cursor_ok (keypresses [40, 76, 76, 74, 38, 72] demo) \<and>
   cursor (keypresses [40, 76, 76, 74, 38, 72] demo) = (0, 1, 0)"
proof -
  have h1: "istate demo = Normal" by (simp add: demo_def)
  have h2: "cells_ok demo" by code_simp
  have h3: "cursor_ok demo" by code_simp
  have h4: "set [40, 76, 76, 74, 38, 72] \<subseteq> set nav_keys" by code_simp
  have c: "cursor (keypresses [40, 76, 76, 74, 38, 72] demo) = (0, 1, 0)" by code_simp
  show ?thesis
    using navigation_stays_in_grid[OF h1 h2 h3 h4] h1 h2 h3 h4 c by blast
qed

text \<open>
  Claim C1 as stated fails where it has left and right reset the item index to 0 at any
  column: right at the last column, and left at the first, leave the cursor on item 1,
  where the specification's wording puts it on item 0.
\<close>

theorem edge_column_keeps_item_counterexample:
  "istate on_placeholder = Normal \<and> cells_ok on_placeholder \<and> cursor_ok on_placeholder \<and>
   cursor on_placeholder = (0, 2, 1) \<and> columnCount on_placeholder = 3 \<and>
   keypress 39 on_placeholder = Inr on_placeholder \<and>
   cursor (final (keypress 39 on_placeholder)) = (0, 2, 1) \<and>
   cursor (spec_navigate 39 on_placeholder) = (0, 2, 0) \<and>
   istate multi_first = Normal \<and> cells_ok multi_first \<and> cursor_ok multi_first \<and>
   cursor multi_first = (0, 0, 1) \<and>
   keypress 37 multi_first = Inr multi_first \<and>
   cursor (final (keypress 37 multi_first)) = (0, 0, 1) \<and>
   cursor (spec_navigate 37 multi_first) = (0, 0, 0)"
  by code_simp

section \<open>Committing an edit of a single-valued column\<close>

lemma find_row_None: "find_row rs p k = None \<longleftrightarrow> (\<forall>r\<in>set rs. rid r \<noteq> p)"
  by (induction rs arbitrary: k) auto


lemma rid_in_orderBy:
  assumes "nat r < length rs"
  shows "\<exists>ix. find_row (orderBy rank (set_cell (nat r) cn v rs)) (rid (rs ! nat r)) 0 = Some ix"
proof -
  have "rid (rs ! nat r) \<in> set (map rid (set_cell (nat r) cn v rs))"
    using assms by simp
  then obtain x where "x \<in> set (set_cell (nat r) cn v rs)" "rid x = rid (rs ! nat r)"
    by (auto simp del: set_cell_rid)
  then have "\<exists>x\<in>set (orderBy rank (set_cell (nat r) cn v rs)). rid x = rid (rs ! nat r)"
    by (auto simp: orderBy_def)
  then show ?thesis
    using find_row_None[of "orderBy rank (set_cell (nat r) cn v rs)" "rid (rs ! nat r)" 0]
    by (cases "find_row (orderBy rank (set_cell (nat r) cn v rs)) (rid (rs ! nat r)) 0") auto
qed

text \<open>
  Claim C5, as amended. Committing an edit of a single-valued column, with the cursor on an
  item of the cell, replaces that item in place by a copy of the working copy, returns to
  the normal state and issues one PUT to \<open>patient/<id>/<column>/\<close>. When the column is
  \<open>location\<close> the rows are then re-sorted and the cursor goes to the row found by the
  patient's id, keeping its column index and with item index 0. For any other
  single-valued column the rows keep their order and the cursor stays where it is.
\<close>

theorem single_edit_commits:
  assumes "getCurrentColumnName s = Inr cn" "isSingleColumn s (cix s) = Inr True"
    "at (rows s) (rix s) = Some rw" "get_prop (props rw) cn = Arr xs"
    "0 \<le> iix s" "iix s < int (length xs)"
  shows "\<exists>s'. saveEdit rank s = Inr s' \<and> istate s' = Normal \<and>
           requests s' = requests s @ [\<lparr> verb = PUT, url = edit_url rw cn, body = editing s,
                                         success = None \<rparr>] \<and>
           (if cn = ''location''
            then rows s' = orderBy rank
                   (set_cell (nat (rix s)) cn (Arr (xs[nat (iix s) := clone (editing s)])) (rows s)) \<and>
                 (\<exists>ix. find_row (rows s') (rid rw) 0 = Some ix \<and> cursor s' = (ix, cix s, 0))
            else rows s' =
                   set_cell (nat (rix s)) cn (Arr (xs[nat (iix s) := clone (editing s)])) (rows s) \<and>
                 map rid (rows s') = map rid (rows s) \<and> cursor s' = cursor s)"
proof -
  define items' where "items' = Arr (xs[nat (iix s) := clone (editing s)])"
  define s0 where "s0 = committed cn items' s"
  define s1 where "s1 = send PUT (edit_url rw cn) (editing s0) None s0"
  have a: "assign_index (get_prop (props rw) cn) (iix s) (clone (editing s)) = Inr items'"
    using assms(4,5,6) by (simp add: assign_index_def items'_def)
  have e: "saveEdit rank s = saveEdit_single rank cn (rid rw) (edit_url rw cn) s0"
    unfolding s0_def by (rule saveEdit_if_single[OF assms(1,3) a assms(2)])
  have f0: "istate s0 = Normal" "requests s0 = requests s" "editing s0 = editing s"
    "rows s0 = set_cell (nat (rix s)) cn items' (rows s)" "cursor s0 = cursor s" "cix s0 = cix s"
    by (simp_all add: s0_def committed_def cursor_def)
  have f1: "istate s1 = Normal" "editing s1 = editing s"
    "requests s1 = requests s @ [\<lparr> verb = PUT, url = edit_url rw cn, body = editing s, success = None \<rparr>]"
    "rows s1 = set_cell (nat (rix s)) cn items' (rows s)" "cursor s1 = cursor s" "cix s1 = cix s"
    using f0 by (simp_all add: s1_def cursor_def)
  show ?thesis
  proof (cases "cn = ''location''")
    case False
    then have "saveEdit rank s = Inr s1"
      unfolding e by (simp add: saveEdit_single_def s1_def Let_def)
    then show ?thesis using False f1 by (simp add: items'_def)
  next
    case True
    define s2 where "s2 = s1\<lparr>rows := orderBy rank (rows s1)\<rparr>"
    have rw: "nat (rix s) < length (rows s)" "rw = rows s ! nat (rix s)"
      using atD[OF assms(3)] by simp_all
    obtain ix where ix: "find_row (rows s2) (rid rw) 0 = Some ix"
      using rid_in_orderBy[OF rw(1), of rank cn items'] f1(4) rw(2) by (auto simp: s2_def)
    have "saveEdit_single rank cn (rid rw) (edit_url rw cn) s0 =
        (case getRowIxFromPatientId s2 (rid rw) of Inl e \<Rightarrow> Inl (e, s2)
         | Inr ix \<Rightarrow> Inr (selectItem ix (cix s2) 0 s2))"
      using True by (simp add: saveEdit_single_def Let_def s1_def s2_def cong: sum.case_cong)
    then have r: "saveEdit rank s = Inr (selectItem ix (cix s) 0 s2)"
      unfolding e using ix f1(6) by (simp add: getRowIxFromPatientId_def s2_def)
    show ?thesis unfolding r using True ix f1
      by (simp add: s2_def items'_def cursor_def)
  qed
qed

theorem single_edit_commits_witness:
  "getCurrentColumnName demo_edit = Inr ''location'' \<and>
   isSingleColumn demo_edit (cix demo_edit) = Inr True \<and>
   at (rows demo_edit) (rix demo_edit) = Some (demo_rows ! 0) \<and>
   get_prop (props (demo_rows ! 0)) ''location'' =
     Arr [Obj [(''category'', Num 1), (''hospital'', Num 1), (''ward'', Num 2), (''bed'', Num 4)]] \<and>
   (\<exists>s'. saveEdit num_rank demo_edit = Inr s' \<and> istate s' = Normal \<and>
      (\<exists>ix. find_row (rows s') (rid (demo_rows ! 0)) 0 = Some ix \<and>
            cursor s' = (ix, cix demo_edit, 0)))"
proof -
  have h1: "getCurrentColumnName demo_edit = Inr ''location''" by code_simp
  have h2: "isSingleColumn demo_edit (cix demo_edit) = Inr True" by code_simp
  have h3: "at (rows demo_edit) (rix demo_edit) = Some (demo_rows ! 0)" by code_simp
  have h4: "get_prop (props (demo_rows ! 0)) ''location'' =
     Arr [Obj [(''category'', Num 1), (''hospital'', Num 1), (''ward'', Num 2), (''bed'', Num 4)]]"
    by code_simp
  have h5: "0 \<le> iix demo_edit" by code_simp
  have h6: "iix demo_edit < int (length [Obj [(''category'', Num 1), (''hospital'', Num 1),
     (''ward'', Num 2), (''bed'', Num 4)]])" by code_simp
  show ?thesis
    using single_edit_commits[OF h1 h2 h3 h4 h5 h6, of num_rank] h1 h2 h3 h4 by auto
qed

text \<open>
  Claim C5 as stated fails where it puts the cursor at column index 0: with the location
  column at index 1, the cursor after the commit is at row 1, column 1, item 0.
\<close>

theorem location_edit_column_counterexample:
  "getCurrentColumnName demo_edit = Inr ''location'' \<and>
   saveEdit num_rank demo_edit = Inr (final (saveEdit num_rank demo_edit)) \<and>
   getRowIxFromPatientId (final (saveEdit num_rank demo_edit)) 7 = Inr 1 \<and>
   cursor (final (saveEdit num_rank demo_edit)) = (1, 1, 0) \<and>
   cursor (final (saveEdit num_rank demo_edit)) \<noteq> (1, 0, 0)"
  by code_simp

section \<open>Starting a delete\<close>

lemma key_delete:
  assumes "k = 8 \<or> k = 46"
  shows "handleKeypressNormal k s = startDelete s"
  using assms by (elim disjE; simp add: handleKeypressNormal_def)

text \<open>
  Claim C6. In the normal state with the cursor on an item of the grid, delete or
  backspace enters the deleting state (and opens the confirmation dialog) exactly when the
  selected column is multi-valued and the item index is not \<open>itemCount - 1\<close>. When the
  column is single-valued, or the selected item is the last of its column, the keypress
  returns the scope as it was: state, dialogs, cursor and rows.
\<close>

theorem delete_key_guard:
  assumes "istate s = Normal" "cursor_ok s" "k = 8 \<or> k = 46"
  shows "(istate (final (keypress k s)) = Deleting \<longleftrightarrow>
            isSingleColumn s (cix s) = Inr False \<and> iix s \<noteq> itemCount s (rix s) (cix s) - 1) \<and>
         (isSingleColumn s (cix s) = Inr False \<and> iix s \<noteq> itemCount s (rix s) (cix s) - 1 \<longrightarrow>
            keypress k s = Inr (show_modal ''delete-confirmation'' (s\<lparr>istate := Deleting\<rparr>))) \<and>
         (isSingleColumn s (cix s) = Inr True \<or> iix s = itemCount s (rix s) (cix s) - 1 \<longrightarrow>
            keypress k s = Inr s)"
proof -
  from assms(2) obtain cols n where c: "columns s = Some cols"
    and r: "0 \<le> cix s" "cix s < int (length cols)"
    and n: "getNumItems s (rix s) (cix s) = Inr n"
    by (rule cursor_okD)
  have kp: "keypress k s = startDelete s"
    using assms(1) key_delete[OF assms(3)] by (simp add: keypress_def)
  have sc: "isSingleColumn s (cix s) = Inr (single (cols ! nat (cix s)))"
    using c r by (simp add: isSingleColumn_def column_at_def at_def)
  have ic: "itemCount s (rix s) (cix s) = n" using n by (simp add: itemCount_def)
  show ?thesis
  proof (cases "single (cols ! nat (cix s))")
    case True
    then show ?thesis unfolding kp using sc assms(1) by (simp add: startDelete_def final_def)
  next
    case False
    show ?thesis
    proof (cases "n = iix s + 1")
      case True
      then show ?thesis unfolding kp using sc False n ic assms(1)
        by (simp add: startDelete_def final_def)
    next
      case F: False
      then have "iix s \<noteq> n - 1" by auto
      then show ?thesis unfolding kp using sc False n ic F
        by (simp add: startDelete_def final_def)
    qed
  qed
qed

theorem delete_key_guard_witness:
  "istate on_item = Normal \<and> cursor_ok on_item \<and>
   istate (final (keypress 46 on_item)) = Deleting \<and>
   istate on_placeholder = Normal \<and> cursor_ok on_placeholder \<and>
   keypress 8 on_placeholder = Inr on_placeholder"
proof -
  have a1: "istate on_item = Normal" by code_simp
  have a2: "cursor_ok on_item" by code_simp
  have a3: "isSingleColumn on_item (cix on_item) = Inr False \<and>
            iix on_item \<noteq> itemCount on_item (rix on_item) (cix on_item) - 1" by code_simp
  have b1: "istate on_placeholder = Normal" by code_simp
  have b2: "cursor_ok on_placeholder" by code_simp
  have b3: "iix on_placeholder = itemCount on_placeholder (rix on_placeholder) (cix on_placeholder) - 1"
    by code_simp
  show ?thesis
    using delete_key_guard[OF a1 a2, of 46] delete_key_guard[OF b1 b2, of 8] a1 a2 a3 b1 b2 b3
    by blast
qed

section \<open>Cancelling\<close>

text \<open>
  Claim C7. In each of the states adding, editing and deleting, escape returns to the
  normal state and leaves rows, columns and cursor as they are, also where cancelEdit
  throws after resetting the state; and entering any of the three states (startAdd,
  startEdit, startDelete) changes neither rows nor cursor. So after a cancelled add, edit
  or delete the grid data and the cursor are those from before it began; the working copy
  lives in \<open>editing\<close> and reaches the rows only through a save.
\<close>

theorem escape_cancels:
  "(istate s \<noteq> Normal \<longrightarrow>
      istate (final (keypress 27 s)) = Normal \<and> rows (final (keypress 27 s)) = rows s \<and>
      columns (final (keypress 27 s)) = columns s \<and> cursor (final (keypress 27 s)) = cursor s) \<and>
   rows (final (startAdd s)) = rows s \<and> cursor (final (startAdd s)) = cursor s \<and>
   rows (final (startEdit s)) = rows s \<and> cursor (final (startEdit s)) = cursor s \<and>
   rows (final (startDelete s)) = rows s \<and> cursor (final (startDelete s)) = cursor s"
proof -
  have a: "rows (final (startAdd s)) = rows s \<and> cursor (final (startAdd s)) = cursor s"
    by (simp add: startAdd_def final_def cursor_def)
  have b: "rows (final (startEdit s)) = rows s \<and> cursor (final (startEdit s)) = cursor s"
    by (simp add: startEdit_def final_def cursor_def Let_def split: sum.splits)
  have c: "rows (final (startDelete s)) = rows s \<and> cursor (final (startDelete s)) = cursor s"
    by (simp add: startDelete_def final_def cursor_def split: sum.splits bool.splits)
  have d: "istate (final (keypress 27 s)) = Normal \<and> rows (final (keypress 27 s)) = rows s \<and>
      columns (final (keypress 27 s)) = columns s \<and> cursor (final (keypress 27 s)) = cursor s"
    if "istate s \<noteq> Normal"
  proof (cases "istate s")
    case Normal
    then show ?thesis using that by simp
  next
    case Adding
    then show ?thesis
      by (simp add: keypress_def handleKeypressAdd_def cancelAdd_def final_def cursor_def)
  next
    case Editing
    then show ?thesis
      by (simp add: keypress_def handleKeypressEdit_def cancelEdit_def final_def cursor_def Let_def
          split: sum.splits)
  next
    case Deleting
    then show ?thesis
      by (simp add: keypress_def handleKeypressDelete_def cancelDelete_def final_def cursor_def)
  qed
  show ?thesis using a b c d by blast
qed

theorem escape_cancels_witness:
  "istate (final (startEdit on_item)) \<noteq> Normal \<and>
   istate (final (keypress 27 (final (startEdit on_item)))) = Normal \<and>
   rows (final (keypress 27 (final (startEdit on_item)))) = rows on_item \<and>
   cursor (final (keypress 27 (final (startEdit on_item)))) = cursor on_item"
proof -
  have a: "istate (final (startEdit on_item)) \<noteq> Normal" by code_simp
  show ?thesis
    using escape_cancels[of "final (startEdit on_item)"] escape_cancels[of on_item] a by simp
qed

section \<open>Looking a row up by patient id\<close>
















section \<open>Navigation without rows\<close>

text \<open>
  Claim C10, as amended. With no rows, in the normal state and with the cursor at the
  origin: up and left (and k, h) return the scope unchanged; down (and j) throws a
  TypeError, reading the item count of a row that does not exist; right (and l) throws a
  TypeError while the schema has not arrived, moves the cursor to column 1 when the schema
  has more than one column, and otherwise returns the scope unchanged.
\<close>

theorem empty_grid_navigation:
  assumes "rows s = []" "istate s = Normal" "cursor s = (0, 0, 0)"
  shows "(k = 38 \<or> k = 75 \<or> k = 37 \<or> k = 72 \<longrightarrow> keypress k s = Inr s) \<and>
         (k = 39 \<or> k = 76 \<longrightarrow>
            keypress k s = (case columns s of
                              None \<Rightarrow> Inl (TypeError, s)
                            | Some cols \<Rightarrow> if 1 < length cols then Inr (s\<lparr>cix := 1, iix := 0\<rparr>)
                                           else Inr s)) \<and>
         (k = 40 \<or> k = 74 \<longrightarrow> keypress k s = Inl (TypeError, s))"
proof -
  have z: "rix s = 0" "cix s = 0" "iix s = 0" using assms(3) by (simp_all add: cursor_def)
  have kp: "keypress k s = handleKeypressNormal k s" using assms(2) by (simp add: keypress_def)
  have up: "goUp s = Inr s" using z by (simp add: goUp_def)
  have left: "goLeft s = Inr s" using z by (simp add: goLeft_def)
  have right: "goRight s = (case columns s of
                              None \<Rightarrow> Inl (TypeError, s)
                            | Some cols \<Rightarrow> if 1 < length cols then Inr (s\<lparr>cix := 1, iix := 0\<rparr>)
                                           else Inr s)"
    using z by (auto simp: goRight_def split: option.splits)
  have "getNumItems s (rix s) (cix s) = Inl TypeError"
    using assms(1) by (auto simp: getNumItems_def cell_def column_at_def at_def split: option.splits)
  then have down: "goDown s = Inl (TypeError, s)" by (simp add: goDown_def)
  show ?thesis
    unfolding kp using key_up(1)[of k s] key_left(1)[of k s] key_right(1)[of k s] key_down(1)[of k s]
      up left right down
    by auto
qed

theorem empty_grid_navigation_witness:
  "rows empty_grid = [] \<and> istate empty_grid = Normal \<and> cursor empty_grid = (0, 0, 0) \<and>
   keypress 38 empty_grid = Inr empty_grid \<and> keypress 72 empty_grid = Inr empty_grid \<and>
   keypress 40 empty_grid = Inl (TypeError, empty_grid) \<and>
   keypress 74 empty_grid = Inl (TypeError, empty_grid)"
proof -
  have h1: "rows empty_grid = []" by code_simp
  have h2: "istate empty_grid = Normal" by code_simp
  have h3: "cursor empty_grid = (0, 0, 0)" by code_simp
  show ?thesis
    using empty_grid_navigation[OF h1 h2 h3, of 38] empty_grid_navigation[OF h1 h2 h3, of 72]
      empty_grid_navigation[OF h1 h2 h3, of 40] empty_grid_navigation[OF h1 h2 h3, of 74]
      h1 h2 h3
    by simp
qed

text \<open>
  Claim C10 as stated fails for the right key: on the empty grid under the three-column
  schema it moves the cursor from column 0 to column 1, and before the schema has arrived
  it throws.
\<close>

theorem empty_grid_right_counterexample:
  "rows empty_grid = [] \<and> istate empty_grid = Normal \<and> cursor empty_grid = (0, 0, 0) \<and>
   keypress 39 empty_grid = Inr (final (keypress 39 empty_grid)) \<and>
   cursor (final (keypress 39 empty_grid)) = (0, 1, 0) \<and>
   cursor (final (keypress 39 empty_grid)) \<noteq> cursor empty_grid \<and>
   rows init = [] \<and> istate init = Normal \<and> keypress 39 init = Inl (TypeError, init)"
  by code_simp

section \<open>Committing a new item of a multi-valued column\<close>

text \<open>
  The commit of a working copy without an \<^verbatim>\<open>id\<close> issues the create call and registers
  its success handler; the handler, run while the cursor is on an object of the captured
  array, writes the server's id into the item under the cursor and appends the placeholder.
\<close>

lemma new_item_commit:
  assumes "getCurrentColumnName s = Inr cn" "isSingleColumn s (cix s) = Inr False"
    "at (rows s) (rix s) = Some rw" "get_prop (props rw) cn = Arr xs"
    "0 \<le> iix s" "iix s < int (length xs)" "id_of (editing s) = Inr Undefined"
  shows "saveEdit rank s =
           Inr (send POST (edit_url rw cn) (editing s) (Some (OnSaveEdit (oid rw) cn (rid rw)))
                  (committed cn (Arr (xs[nat (iix s) := clone (editing s)])) s))"
proof -
  define items' where "items' = Arr (xs[nat (iix s) := clone (editing s)])"
  have a: "assign_index (get_prop (props rw) cn) (iix s) (clone (editing s)) = Inr items'"
    using assms(4,5,6) by (simp add: assign_index_def items'_def)
  have e: "editing (committed cn items' s) = editing s" by (simp add: committed_def)
  show ?thesis
    unfolding saveEdit_if_multi[OF assms(1,3) a assms(2)] items'_def[symmetric]
    using assms(7) by (simp add: saveEdit_multi_def e)
qed

lemma create_handled_in_place:
  assumes "row_index obj (rows s) = Some r" "get_prop (props (rows s ! r)) cn = Arr xs"
    "at xs (iix s) = Some (Obj ps)" "id_of item = Inr v"
  shows "saveEdit_success obj cn pid item s =
           Inr (s\<lparr>rows := set_cell r cn
                  (Arr (xs[nat (iix s) := Obj (set_prop ''id'' v ps)] @ [placeholder pid])) (rows s)\<rparr>)"
proof -
  have b: "0 \<le> iix s" "iix s < int (length xs)" using assms(3) by (auto simp: at_def split: if_splits)
  show ?thesis
    using assms b by (simp add: saveEdit_success_def Let_def assign_id_def assign_index_def)
qed

text \<open>
  Claim C4 fails on the code. The success handler of the create call writes the id to
  \<^verbatim>\<open>items[$scope.iix]\<close> with the item index of the moment it runs, while \<open>items\<close> and
  \<open>patientId\<close> are the ones captured at the commit. Patient 7 has the diagnosis with
  id 1; a second one is committed on the placeholder at index 1, the up key moves the
  cursor to index 0 before the server answers, and the answer with id 5 then overwrites
  the id of the first diagnosis and leaves the new item without one. Handled before the
  cursor moves, the same answer gives the new item the id 5 (last conjunct).
\<close>

theorem create_response_after_cursor_move:
  "saveEdit num_rank second_entry = Inr after_commit \<and>
   requests after_commit =
     [\<lparr> verb = POST, url = ''patient/7/diagnosis/'',
        body = Obj [(''patient'', Num 7), (''condition'', Str ''cold'')],
        success = Some (OnSaveEdit 0 ''diagnosis'' 7) \<rparr>] \<and>
   cell after_commit 0 2 =
     Inr (Arr [Obj [(''id'', Num 1), (''condition'', Str ''flu'')],
               Obj [(''patient'', Num 7), (''condition'', Str ''cold'')]]) \<and>
   keypress 38 after_commit = Inr moved_up \<and> cursor moved_up = (0, 2, 0) \<and>
   cell (final (saveEdit_success 0 ''diagnosis'' 7 created_item moved_up)) 0 2 =
     Inr (Arr [Obj [(''id'', Num 5), (''condition'', Str ''flu'')],
               Obj [(''patient'', Num 7), (''condition'', Str ''cold'')],
               Obj [(''patient'', Num 7)]]) \<and>
   cell (final (saveEdit_success 0 ''diagnosis'' 7 created_item after_commit)) 0 2 =
     Inr (Arr [Obj [(''id'', Num 1), (''condition'', Str ''flu'')],
               Obj [(''patient'', Num 7), (''condition'', Str ''cold''), (''id'', Num 5)],
               Obj [(''patient'', Num 7)]])"
  by code_simp

section \<open>Saving and adding the next item\<close>

text \<open>
  Claim C9 fails on the code for a new item. saveEditAndAdd sets the item index to
  \<open>itemCount - 1\<close> right after saveEdit, but for a working copy without an \<^verbatim>\<open>id\<close> the
  placeholder is appended only by the success handler of the create call, which has not
  run: the last item is the one just committed, and the editor reopens on a copy of it
  (patient 9, first five conjuncts after the premise). For an item that has an
  \<^verbatim>\<open>id\<close> the cursor does land on the trailing placeholder (patient 7).
\<close>

theorem save_and_add_reopens_new_item:
  "id_of (editing first_entry) = Inr Undefined \<and>
   saveEditAndAdd num_rank first_entry = Inr (final (saveEditAndAdd num_rank first_entry)) \<and>
   istate (final (saveEditAndAdd num_rank first_entry)) = Editing \<and>
   cursor (final (saveEditAndAdd num_rank first_entry)) = (1, 2, 0) \<and>
   cell (final (saveEditAndAdd num_rank first_entry)) 1 2 =
     Inr (Arr [Obj [(''patient'', Num 9), (''condition'', Str ''cold'')]]) \<and>
   editing (final (saveEditAndAdd num_rank first_entry)) =
     Obj [(''patient'', Num 9), (''condition'', Str ''cold'')] \<and>
   editing (final (saveEditAndAdd num_rank first_entry)) \<noteq> placeholder 9 \<and>
   id_of (editing existing_entry) = Inr (Num 1) \<and>
   cursor (final (saveEditAndAdd num_rank existing_entry)) = (0, 2, 1) \<and>
   cell (final (saveEditAndAdd num_rank existing_entry)) 0 2 =
     Inr (Arr [Obj [(''id'', Num 1), (''condition'', Str ''mumps'')], Obj [(''patient'', Num 7)]]) \<and>
   editing (final (saveEditAndAdd num_rank existing_entry)) = placeholder 7"
  by code_simp

end
